theory Spec2Isabelle
  imports Complex_Main "HOL-Library.Word"
begin

unbundle bit_operations_syntax

section \<open>Basic types of the client\<close>

text \<open>
  Go strings are byte sequences; they are modelled as \<open>string\<close>. \<open>[]byte\<close> is a list
  of 8-bit words, \<open>int64\<close> a 64-bit word read with \<open>sint\<close>, and Go's \<open>int\<close> (used for
  chain ids and precisions) an \<open>int\<close>.
\<close>

type_synonym byte = "8 word"
type_synonym int64 = "64 word"

text \<open>Every error return of the modelled functions, one constructor per message.\<close>

datatype error =
    PriceOutOfRange
  | InvalidTickSize
  | NotTickMultiple string
  | EntropyFailure
  | InvalidPrivateKey
  | ParsePrivateKeyFailed
  | HashDomainFailed
  | HashMessageFailed
  | SignFailed
  | IndexOutOfRange
  | NonPositiveBound
  | FailedGetAddress error
  | FailedCalculateAmounts error
  | FailedGenerateSalt error
  | FailedSignOrder error

type_synonym Side = string
type_synonym TickSize = string
type_synonym SignatureType = int

definition SideBuy :: Side where "SideBuy = ''BUY''"
definition SideSell :: Side where "SideSell = ''SELL''"

definition TickSize01 :: TickSize where "TickSize01 = ''0.1''"
definition TickSize001 :: TickSize where "TickSize001 = ''0.01''"
definition TickSize0001 :: TickSize where "TickSize0001 = ''0.001''"
definition TickSize00001 :: TickSize where "TickSize00001 = ''0.0001''"

record RoundConfig =
  Price :: int
  Size :: int
  Amount :: int

section \<open>Lookup tables\<close>

text \<open>\<open>getExchangeAddress\<close> (signing.go): a switch on the chain id with a default branch.\<close>

definition getExchangeAddress :: "int \<Rightarrow> string" where
  "getExchangeAddress chainID =
     (if chainID = 137 then ''0x4bFb41d5B3570DeFd03C39a9A4D8dE6Bd8B8982E''
      else if chainID = 80002 then ''0xdFE02Eb6733538f8Ea35D585af8DE5958AD99E40''
      else ''0x4bFb41d5B3570DeFd03C39a9A4D8dE6Bd8B8982E'')"

text \<open>\<open>getRoundConfig\<close> (order_builder.go): a switch on the tick size string.\<close>

definition getRoundConfig :: "TickSize \<Rightarrow> RoundConfig" where
  "getRoundConfig tickSize =
     (if tickSize = TickSize01 then \<lparr>Price = 1, Size = 1, Amount = 1\<rparr>
      else if tickSize = TickSize001 then \<lparr>Price = 2, Size = 2, Amount = 2\<rparr>
      else if tickSize = TickSize0001 then \<lparr>Price = 3, Size = 3, Amount = 3\<rparr>
      else if tickSize = TickSize00001 then \<lparr>Price = 4, Size = 4, Amount = 4\<rparr>
      else \<lparr>Price = 2, Size = 2, Amount = 2\<rparr>)"

section \<open>Salt generation\<close>

text \<open>
  The entropy source \<open>rand.Reader\<close> is the list of bytes it will deliver; a source that
  runs dry makes \<open>io.ReadFull\<close> fail. \<open>rand.Int\<close> of the Go standard library draws
  \<open>k\<close> bytes, clears the surplus top bits of the first one, reads the bytes as a
  big-endian number and retries until the number is below \<open>max\<close>.
\<close>

fun bit_length :: "nat \<Rightarrow> nat" where
  "bit_length n = (if n = 0 then 0 else Suc (bit_length (n div 2)))"

declare bit_length.simps [simp del]

definition ReadFull :: "nat \<Rightarrow> byte list \<Rightarrow> error + (byte list \<times> byte list)" where
  "ReadFull k r = (if length r < k then Inl EntropyFailure else Inr (take k r, drop k r))"

definition SetBytes :: "byte list \<Rightarrow> nat" where
  "SetBytes bs = foldl (\<lambda>a x. a * 256 + unat x) 0 bs"

function rand_Int_loop :: "nat \<Rightarrow> nat \<Rightarrow> nat \<Rightarrow> byte list \<Rightarrow> error + (nat \<times> byte list)" where
  "rand_Int_loop k b mx r =
     (case ReadFull k r of
        Inl e \<Rightarrow> Inl e
      | Inr (bytes, rest) \<Rightarrow>
          (case bytes of
             [] \<Rightarrow> Inl IndexOutOfRange
           | b0 # bs \<Rightarrow>
               (let n = SetBytes ((b0 AND (push_bit b 1 - 1)) # bs)
                in if n < mx then Inr (n, rest) else rand_Int_loop k b mx rest)))"
  by pat_completeness auto
termination
proof (relation "measure (\<lambda>(k, b, mx, r). length r)")
  show "wf (measure (\<lambda>(k, b, mx, r). length r))"
    by simp
next
  fix k b mx :: nat and r x y :: "byte list" and x2 :: "byte list \<times> byte list"
    and x21 :: byte and x22 :: "byte list" and xa :: nat
  assume rd: "ReadFull k r = Inr x2" "(x, y) = x2" "x = x21 # x22"
  then have *: "k \<le> length r" "take k r = x21 # x22" "y = drop k r"
    by (auto simp: ReadFull_def split: if_splits)
  then have "k \<noteq> 0"
    by (cases k) simp_all
  with * show "((k, b, mx, y), k, b, mx, r) \<in> measure (\<lambda>(k, b, mx, r). length r)"
    by simp
qed

declare rand_Int_loop.simps [simp del]

definition rand_Int :: "byte list \<Rightarrow> nat \<Rightarrow> error + (nat \<times> byte list)" where
  "rand_Int r mx =
     (if mx = 0 then Inl NonPositiveBound
      else let bitLen = bit_length (mx - 1)
           in if bitLen = 0 then Inr (0, r)
              else let k = (bitLen + 7) div 8;
                       b = (if bitLen mod 8 = 0 then 8 else bitLen mod 8)
                   in rand_Int_loop k b mx r)"

text \<open>\<open>generateSalt\<close> (order_builder.go); \<open>n.Int64()\<close> keeps the low 64 bits.\<close>

definition generateSalt :: "byte list \<Rightarrow> error + (int64 \<times> byte list)" where
  "generateSalt r =
     (case rand_Int r 9223372036854775807 of
        Inl e \<Rightarrow> Inl e
      | Inr (n, rest) \<Rightarrow> Inr (word_of_nat n, rest))"

section \<open>IEEE 754 binary64 arithmetic\<close>

text \<open>
  Go's \<open>float64\<close>. \<open>Finite s m e\<close> is the number \<open>(-1)\<^sup>s \<times> m \<times> 2\<^sup>e\<close> in the format's own
  normal form: \<open>m < 2\<^sup>5\<^sup>3\<close>, \<open>-1074 \<le> e \<le> 971\<close>, and \<open>2\<^sup>5\<^sup>2 \<le> m\<close> unless \<open>e = -1074\<close>
  (zero and the subnormal numbers). Both zeros, both infinities and NaN are values.
  Every operation rounds its exact result to the nearest representable number, ties to
  the even significand, and overflows to an infinity.
\<close>

datatype float64 = Finite bool nat int | Infinity bool | NaN

text \<open>The integer nearest to \<open>n / d\<close>, ties to even, from quotient and remainder.\<close>

definition rne_qr :: "nat \<Rightarrow> nat \<Rightarrow> nat \<Rightarrow> nat" where
  "rne_qr q r d =
     (if 2 * r < d then q
      else if d < 2 * r then q + 1
      else if even q then q else q + 1)"

definition rne :: "nat \<Rightarrow> nat \<Rightarrow> nat" where
  "rne n d = rne_qr (n div d) (n mod d) d"

text \<open>
  The binary64 number nearest to \<open>(-1)\<^sup>s \<times> (n / d) \<times> 2\<^sup>x\<close>, for \<open>d > 0\<close>:
  \<open>floor_log2\<close> is the binary exponent of \<open>n / d\<close>, \<open>round_exponent\<close> the exponent of
  the last significand bit that the format keeps there, \<open>rne_scaled\<close> the significand,
  and \<open>pack_f64\<close> renormalises a significand that rounded up to \<open>2\<^sup>5\<^sup>3\<close> and overflows
  to an infinity.
\<close>

definition log2_adjust :: "nat \<Rightarrow> nat \<Rightarrow> nat \<Rightarrow> nat \<Rightarrow> int" where
  "log2_adjust n d bn bd = int bn - int bd - (if n * 2 ^ bd < d * 2 ^ bn then 1 else 0)"

definition floor_log2 :: "nat \<Rightarrow> nat \<Rightarrow> int" where
  "floor_log2 n d = log2_adjust n d (bit_length n) (bit_length d)"

definition round_exponent :: "nat \<Rightarrow> nat \<Rightarrow> int \<Rightarrow> int" where
  "round_exponent n d x = max (floor_log2 n d + x - 52) (- 1074)"

definition rne_scaled :: "nat \<Rightarrow> nat \<Rightarrow> int \<Rightarrow> nat" where
  "rne_scaled n d sh = (if 0 \<le> sh then rne (n * 2 ^ nat sh) d else rne n (d * 2 ^ nat (- sh)))"

definition pack_f64 :: "bool \<Rightarrow> nat \<Rightarrow> int \<Rightarrow> float64" where
  "pack_f64 s m e =
     (if m = 2 ^ 53 then (if 971 < e + 1 then Infinity s else Finite s (2 ^ 52) (e + 1))
      else if 971 < e then Infinity s else Finite s m e)"

definition round_at :: "bool \<Rightarrow> nat \<Rightarrow> nat \<Rightarrow> int \<Rightarrow> int \<Rightarrow> float64" where
  "round_at s n d x e = pack_f64 s (rne_scaled n d (x - e)) e"

definition round_f64 :: "bool \<Rightarrow> nat \<Rightarrow> nat \<Rightarrow> int \<Rightarrow> float64" where
  "round_f64 s n d x =
     (if n = 0 then Finite s 0 (- 1074) else round_at s n d x (round_exponent n d x))"

definition float64_of_nat :: "nat \<Rightarrow> float64" where
  "float64_of_nat n = round_f64 False n 1 0"

definition float64_of_int :: "int \<Rightarrow> float64" where
  "float64_of_int i = round_f64 (i < 0) (nat \<bar>i\<bar>) 1 0"

text \<open>
  A constant written as the fraction \<open>n / d\<close>, such as \<open>0.52\<close>: the compiler rounds it to
  the nearest float64.
\<close>

definition float64_lit :: "nat \<Rightarrow> nat \<Rightarrow> float64" where
  "float64_lit n d = round_f64 False n d 0"

text \<open>The signed significand of a finite number at a smaller exponent \<open>x\<close>.\<close>

definition scaled :: "bool \<Rightarrow> nat \<Rightarrow> int \<Rightarrow> int \<Rightarrow> int" where
  "scaled s m e x = (if s then - 1 else 1) * int m * 2 ^ nat (e - x)"

fun fneg :: "float64 \<Rightarrow> float64" where
  "fneg (Finite s m e) = Finite (\<not> s) m e"
| "fneg (Infinity s) = Infinity (\<not> s)"
| "fneg NaN = NaN"

fun fabs :: "float64 \<Rightarrow> float64" where
  "fabs (Finite s m e) = Finite False m e"
| "fabs (Infinity s) = Infinity False"
| "fabs NaN = NaN"

fun fmul :: "float64 \<Rightarrow> float64 \<Rightarrow> float64" where
  "fmul (Finite s m e) (Finite t n f) = round_f64 (s \<noteq> t) (m * n) 1 (e + f)"
| "fmul (Finite s m e) (Infinity t) = (if m = 0 then NaN else Infinity (s \<noteq> t))"
| "fmul (Infinity s) (Finite t n f) = (if n = 0 then NaN else Infinity (s \<noteq> t))"
| "fmul (Infinity s) (Infinity t) = Infinity (s \<noteq> t)"
| "fmul _ _ = NaN"

fun fdiv :: "float64 \<Rightarrow> float64 \<Rightarrow> float64" where
  "fdiv (Finite s m e) (Finite t n f) =
     (if n = 0 then (if m = 0 then NaN else Infinity (s \<noteq> t))
      else round_f64 (s \<noteq> t) m n (e - f))"
| "fdiv (Finite s m e) (Infinity t) = Finite (s \<noteq> t) 0 (- 1074)"
| "fdiv (Infinity s) (Finite t n f) = Infinity (s \<noteq> t)"
| "fdiv _ _ = NaN"

definition fadd_exact :: "bool \<Rightarrow> int \<Rightarrow> int \<Rightarrow> float64" where
  "fadd_exact z c x =
     (if c = 0 then Finite z 0 (- 1074) else round_f64 (c < 0) (nat \<bar>c\<bar>) 1 x)"

fun fadd :: "float64 \<Rightarrow> float64 \<Rightarrow> float64" where
  "fadd (Finite s m e) (Finite t n f) =
     fadd_exact (s \<and> t) (scaled s m e (min e f) + scaled t n f (min e f)) (min e f)"
| "fadd (Finite s m e) (Infinity t) = Infinity t"
| "fadd (Infinity s) (Finite t n f) = Infinity s"
| "fadd (Infinity s) (Infinity t) = (if s = t then Infinity s else NaN)"
| "fadd _ _ = NaN"

definition fsub :: "float64 \<Rightarrow> float64 \<Rightarrow> float64" where
  "fsub a b = fadd a (fneg b)"

text \<open>The comparisons \<open><\<close> and \<open><=\<close>: false whenever an operand is NaN.\<close>

fun flt :: "float64 \<Rightarrow> float64 \<Rightarrow> bool" where
  "flt (Finite s m e) (Finite t n f) = (scaled s m e (min e f) < scaled t n f (min e f))"
| "flt (Finite s m e) (Infinity t) = (\<not> t)"
| "flt (Infinity s) (Finite t n f) = s"
| "flt (Infinity s) (Infinity t) = (s \<and> \<not> t)"
| "flt _ _ = False"

fun fle :: "float64 \<Rightarrow> float64 \<Rightarrow> bool" where
  "fle (Finite s m e) (Finite t n f) = (scaled s m e (min e f) \<le> scaled t n f (min e f))"
| "fle (Finite s m e) (Infinity t) = (\<not> t)"
| "fle (Infinity s) (Finite t n f) = s"
| "fle (Infinity s) (Infinity t) = (s \<or> \<not> t)"
| "fle _ _ = False"

text \<open>The comparison \<open>==\<close>: the two zeros are equal, NaN differs from everything.\<close>

definition feq :: "float64 \<Rightarrow> float64 \<Rightarrow> bool" where
  "feq a b = (fle a b \<and> fle b a)"

text \<open>
  \<open>math.Round\<close>: the nearest integer, halves away from zero; the sign is kept, so a
  small negative number gives the negative zero.
\<close>

definition round_half_away :: "nat \<Rightarrow> nat \<Rightarrow> nat \<Rightarrow> nat" where
  "round_half_away q r d = (if d \<le> 2 * r then q + 1 else q)"

fun Round :: "float64 \<Rightarrow> float64" where
  "Round (Finite s m e) =
     (if 0 \<le> e then Finite s m e
      else round_f64 s (round_half_away (m div 2 ^ nat (- e)) (m mod 2 ^ nat (- e)) (2 ^ nat (- e))) 1 0)"
| "Round (Infinity s) = Infinity s"
| "Round NaN = NaN"

text \<open>
  \<open>math.Mod x y\<close>: NaN for an infinite or NaN \<open>x\<close>, for a NaN \<open>y\<close> and for \<open>y = 0\<close>;
  \<open>x\<close> for an infinite \<open>y\<close>; otherwise the exact remainder of \<open>|x|\<close> by \<open>|y|\<close> with the
  sign of \<open>x\<close> (the library's loop subtracts scaled copies of \<open>y\<close> without rounding).
\<close>

fun Mod :: "float64 \<Rightarrow> float64 \<Rightarrow> float64" where
  "Mod (Finite s m e) (Finite t n f) =
     (if n = 0 then NaN
      else round_f64 s (nat (scaled False m e (min e f) mod scaled False n f (min e f))) 1 (min e f))"
| "Mod (Finite s m e) (Infinity t) = Finite s m e"
| "Mod _ _ = NaN"

text \<open>\<open>math.Ldexp frac exp\<close>: \<open>frac \<times> 2\<^sup>e\<^sup>x\<^sup>p\<close>, rounded once.\<close>

fun Ldexp :: "float64 \<Rightarrow> int \<Rightarrow> float64" where
  "Ldexp (Finite s m e) k = (if m = 0 then Finite s m e else round_f64 s m 1 (e + k))"
| "Ldexp x k = x"

text \<open>
  \<open>math.Pow(10, float64(decimals))\<close>. The exponent is an integer, so of the library's
  \<open>pow\<close> only the integral path applies: the shortcuts for 0 and 1, the saturation for
  \<open>|y| \<ge> 2\<^sup>6\<^sup>3\<close>, and square-and-multiply on the pair (fraction, binary exponent)
  starting from \<open>Frexp 10 = (0.625, 4)\<close>, with the early exit once the binary exponent
  leaves the range of \<open>-4096\<close> to \<open>4096\<close>.
\<close>

definition pow_renorm :: "float64 \<Rightarrow> int \<Rightarrow> float64 \<times> int" where
  "pow_renorm x1 xe =
     (if flt x1 (Finite False (2 ^ 52) (- 53)) then (fadd x1 x1, xe - 1) else (x1, xe))"

function pow_loop :: "nat \<Rightarrow> float64 \<Rightarrow> int \<Rightarrow> float64 \<times> int \<Rightarrow> float64 \<times> int" where
  "pow_loop i a1 ae (x1, xe) =
     (if i = 0 then (a1, ae)
      else if xe < - 4096 \<or> 4096 < xe then (a1, ae + xe)
      else pow_loop (i div 2) (if odd i then fmul a1 x1 else a1) (if odd i then ae + xe else ae)
             (pow_renorm (fmul x1 x1) (2 * xe)))"
  by pat_completeness auto
termination
  by (relation "measure (\<lambda>(i, a1, ae, x). i)") auto

declare pow_loop.simps [simp del]

fun float64_to_nat :: "float64 \<Rightarrow> nat" where
  "float64_to_nat (Finite s m e) = (if 0 \<le> e then m * 2 ^ nat e else m div 2 ^ nat (- e))"
| "float64_to_nat _ = 0"

definition pow_finish :: "float64 \<Rightarrow> float64 \<times> int \<Rightarrow> float64" where
  "pow_finish y r =
     (if flt y (float64_of_nat 0) then Ldexp (fdiv (float64_of_nat 1) (fst r)) (- snd r)
      else Ldexp (fst r) (snd r))"

definition pow10 :: "float64 \<Rightarrow> float64" where
  "pow10 y =
     (if feq y (float64_of_nat 0) then float64_of_nat 1
      else if feq y (float64_of_nat 1) then float64_of_nat 10
      else if fle (float64_of_nat (2 ^ 63)) (fabs y)
        then (if flt (float64_of_nat 0) y then Infinity False else float64_of_nat 0)
      else pow_finish y
             (pow_loop (float64_to_nat (fabs y)) (float64_of_nat 1) 0
                (Finite False (5 * 2 ^ 50) (- 53), 4)))"

definition Pow10 :: "int \<Rightarrow> float64" where
  "Pow10 decimals = pow10 (float64_of_int decimals)"

section \<open>Order amounts\<close>

text \<open>\<open>roundAmount\<close> (order_builder.go).\<close>

definition roundAmount :: "float64 \<Rightarrow> int \<Rightarrow> float64" where
  "roundAmount amount decimals =
     (let multiplier = Pow10 decimals
      in fdiv (Round (fmul amount multiplier)) multiplier)"

text \<open>Decimal digits of a natural number, and of an integer as \<open>big.Int.String\<close> prints it.\<close>

fun dec :: "nat \<Rightarrow> string" where
  "dec n = (if n < 10 then [''0123456789'' ! n] else dec (n div 10) @ [''0123456789'' ! (n mod 10)])"

declare dec.simps [simp del]

definition Int_String :: "int \<Rightarrow> string" where
  "Int_String z = (if z < 0 then CHR ''-'' # dec (nat (- z)) else dec (nat z))"

text \<open>
  \<open>fmt.Sprintf("%.0f", x)\<close>: the exact value rounded to an integer, ties to even, with
  a minus sign for every negative number and the negative zero.
\<close>

fun Sprintf_f0 :: "float64 \<Rightarrow> string" where
  "Sprintf_f0 (Finite s m e) =
     (if s then [CHR ''-''] else []) @
     dec (rne_scaled m 1 e)"
| "Sprintf_f0 (Infinity s) = (if s then ''-Inf'' else ''+Inf'')"
| "Sprintf_f0 NaN = ''NaN''"

text \<open>
  \<open>big.Int.SetString(s, 10)\<close>, whose result the caller ignores: the receiver afterwards
  holds the number spelt by an optional sign and the digits that follow it, and zero
  when no digit follows (the texts \<open>NaN\<close>, \<open>+Inf\<close> and \<open>-Inf\<close>).
\<close>

definition is_digit :: "char \<Rightarrow> bool" where
  "is_digit c = (48 \<le> (of_char c :: nat) \<and> (of_char c :: nat) \<le> 57)"

definition digits_val :: "string \<Rightarrow> nat" where
  "digits_val ds = foldl (\<lambda>a c. a * 10 + (of_char c - 48)) 0 ds"

definition SetString :: "string \<Rightarrow> int" where
  "SetString str =
     (case str of
        [] \<Rightarrow> 0
      | c # cs \<Rightarrow>
          if c = CHR ''-'' then - int (digits_val (takeWhile is_digit cs))
          else if c = CHR ''+'' then int (digits_val (takeWhile is_digit cs))
          else int (digits_val (takeWhile is_digit str)))"

text \<open>\<open>calculateOrderAmounts\<close> (order_builder.go).\<close>

definition calculateOrderAmounts ::
  "float64 \<Rightarrow> float64 \<Rightarrow> Side \<Rightarrow> RoundConfig \<Rightarrow> error + (string \<times> string)" where
  "calculateOrderAmounts price size' side roundConfig =
     (if fle price (float64_of_nat 0) \<or> flt (float64_of_nat 1) price then Inl PriceOutOfRange
      else
        let rawMakerAmount =
              (if side = SideBuy then roundAmount (fmul price size') (Amount roundConfig)
               else roundAmount size' (Size roundConfig));
            rawTakerAmount =
              (if side = SideBuy then roundAmount size' (Size roundConfig)
               else roundAmount (fmul price size') (Amount roundConfig));
            makerAmountWei = SetString (Sprintf_f0 (fmul rawMakerAmount (float64_of_nat 1000000)));
            takerAmountWei = SetString (Sprintf_f0 (fmul rawTakerAmount (float64_of_nat 1000000)))
        in Inr (Int_String makerAmountWei, Int_String takerAmountWei))"

text \<open>
  The conversion of one leg to base units, as \<open>calculateOrderAmounts\<close> performs it on
  each leg: scale by \<open>10\<^sup>6\<close>, print with no decimals, read back as an integer.
\<close>

definition toBaseUnits :: "float64 \<Rightarrow> string" where
  "toBaseUnits x = Int_String (SetString (Sprintf_f0 (fmul x (float64_of_nat 1000000))))"

section \<open>Price validation\<close>

text \<open>
  \<open>strconv.ParseFloat(s, 64)\<close>. \<open>special\<close> recognises the infinities and NaN,
  \<open>readFloat\<close> scans the sign, the mantissa and the exponent of a decimal or hexadecimal
  number, and \<open>underscoreOK\<close> admits underscores only between digits or behind a base
  prefix. The scanned text denotes \<open>mantissa \<times> 10\<^sup>e\<^sup>x\<^sup>p\<close>, for a hexadecimal number
  \<open>mantissa \<times> 2\<^sup>e\<^sup>x\<^sup>p\<close>; the result is the float64 nearest to it, and the range error
  when that is an infinity. The library keeps 19 digits of the mantissa, with a flag for
  dropped digits, and still rounds the whole text correctly; here the mantissa is kept
  in full.
\<close>

datatype parse_error = ErrSyntax | ErrRange

text \<open>
  \<open>lower(c)\<close> sets bit \<open>0x20\<close> of a byte, so that \<open>lower(c) == 'x'\<close> holds of \<open>x\<close> and
  \<open>X\<close>, and \<open>'a' <= lower(c) <= 'f'\<close> of the hexadecimal letters in both cases.
\<close>

definition lower_is :: "char \<Rightarrow> char \<Rightarrow> char \<Rightarrow> bool" where
  "lower_is c small capital = (c = small \<or> c = capital)"

definition is_hex_letter :: "char \<Rightarrow> bool" where
  "is_hex_letter c =
     (97 \<le> (of_char c :: nat) \<and> (of_char c :: nat) \<le> 102
      \<or> 65 \<le> (of_char c :: nat) \<and> (of_char c :: nat) \<le> 70)"

definition hex_letter_val :: "char \<Rightarrow> nat" where
  "hex_letter_val c = (if 97 \<le> (of_char c :: nat) then of_char c - 87 else of_char c - 55)"

fun commonPrefixLenIgnoreCase :: "string \<Rightarrow> string \<Rightarrow> nat" where
  "commonPrefixLenIgnoreCase (c # cs) (p # ps) =
     (if (if 65 \<le> (of_char c :: nat) \<and> (of_char c :: nat) \<le> 90 then of_char c + 32 else of_char c)
           = (of_char p :: nat)
      then commonPrefixLenIgnoreCase cs ps + 1 else 0)"
| "commonPrefixLenIgnoreCase _ _ = 0"

definition special_inf :: "bool \<Rightarrow> nat \<Rightarrow> nat \<Rightarrow> (float64 \<times> nat) option" where
  "special_inf neg nsign n =
     (if (if 3 < n \<and> n < 8 then 3 else n) = 3 then Some (Infinity neg, nsign + 3)
      else if n = 8 then Some (Infinity neg, nsign + 8)
      else None)"

definition special :: "string \<Rightarrow> (float64 \<times> nat) option" where
  "special s =
     (case s of
        [] \<Rightarrow> None
      | c # cs \<Rightarrow>
          if c = CHR ''+'' \<or> c = CHR ''-''
            then special_inf (c = CHR ''-'') 1 (commonPrefixLenIgnoreCase cs ''infinity'')
          else if c = CHR ''i'' \<or> c = CHR ''I''
            then special_inf False 0 (commonPrefixLenIgnoreCase s ''infinity'')
          else if c = CHR ''n'' \<or> c = CHR ''N''
            then (if commonPrefixLenIgnoreCase s ''nan'' = 3 then Some (NaN, 3) else None)
          else None)"

text \<open>
  \<open>underscoreOK\<close>: \<open>saw\<close> is the kind of the last character, \<open>^\<close> at the beginning,
  \<open>0\<close> for a digit or the base prefix, \<open>_\<close> for an underscore and \<open>!\<close> otherwise.
\<close>

fun underscoreOK_loop :: "bool \<Rightarrow> char \<Rightarrow> string \<Rightarrow> bool" where
  "underscoreOK_loop hex saw [] = (saw \<noteq> CHR ''_'')"
| "underscoreOK_loop hex saw (c # cs) =
     (if is_digit c \<or> hex \<and> is_hex_letter c then underscoreOK_loop hex (CHR ''0'') cs
      else if c = CHR ''_'' then (if saw \<noteq> CHR ''0'' then False else underscoreOK_loop hex (CHR ''_'') cs)
      else if saw = CHR ''_'' then False
      else underscoreOK_loop hex (CHR ''!'') cs)"

definition underscoreOK_number :: "string \<Rightarrow> bool" where
  "underscoreOK_number s =
     (case s of
        a # b # r \<Rightarrow>
          if a = CHR ''0'' \<and> (lower_is b (CHR ''b'') (CHR ''B'') \<or> lower_is b (CHR ''o'') (CHR ''O'')
                \<or> lower_is b (CHR ''x'') (CHR ''X''))
          then underscoreOK_loop (lower_is b (CHR ''x'') (CHR ''X'')) (CHR ''0'') r
          else underscoreOK_loop False (CHR ''^'') s
      | _ \<Rightarrow> underscoreOK_loop False (CHR ''^'') s)"

definition underscoreOK :: "string \<Rightarrow> bool" where
  "underscoreOK s =
     (case s of
        [] \<Rightarrow> underscoreOK_number s
      | c # cs \<Rightarrow> if c = CHR ''-'' \<or> c = CHR ''+'' then underscoreOK_number cs
                  else underscoreOK_number s)"

text \<open>
  \<open>readFloat\<close>. The digit loop returns the mantissa, the number \<open>nd\<close> of its digits
  without leading zeros, the position \<open>dp\<close> of the point, the flags, and the text left
  over.
\<close>

fun readFloat_digits :: "nat \<Rightarrow> string \<Rightarrow> nat \<Rightarrow> nat \<Rightarrow> int \<Rightarrow> bool \<Rightarrow> bool \<Rightarrow> bool
    \<Rightarrow> (nat \<times> nat \<times> int \<times> bool \<times> bool \<times> bool) \<times> string" where
  "readFloat_digits base [] mantissa nd dp sawdot sawdigits underscores =
     ((mantissa, nd, dp, sawdot, sawdigits, underscores), [])"
| "readFloat_digits base (c # cs) mantissa nd dp sawdot sawdigits underscores =
     (if c = CHR ''_'' then readFloat_digits base cs mantissa nd dp sawdot sawdigits True
      else if c = CHR ''.'' then
        (if sawdot then ((mantissa, nd, dp, sawdot, sawdigits, underscores), c # cs)
         else readFloat_digits base cs mantissa nd (int nd) True sawdigits underscores)
      else if is_digit c then
        (if c = CHR ''0'' \<and> nd = 0
         then readFloat_digits base cs mantissa nd (dp - 1) sawdot True underscores
         else readFloat_digits base cs (mantissa * base + (of_char c - 48)) (nd + 1) dp sawdot
                True underscores)
      else if base = 16 \<and> is_hex_letter c then
        readFloat_digits base cs (mantissa * 16 + hex_letter_val c) (nd + 1) dp sawdot True
          underscores
      else ((mantissa, nd, dp, sawdot, sawdigits, underscores), c # cs))"

text \<open>The digits of the exponent; the value stops growing once it has reached 10000.\<close>

fun readFloat_exp_digits :: "string \<Rightarrow> nat \<Rightarrow> bool \<Rightarrow> (nat \<times> bool) \<times> string" where
  "readFloat_exp_digits [] e underscores = ((e, underscores), [])"
| "readFloat_exp_digits (c # cs) e underscores =
     (if c = CHR ''_'' then readFloat_exp_digits cs e True
      else if is_digit c then
        readFloat_exp_digits cs (if e < 10000 then e * 10 + (of_char c - 48) else e) underscores
      else ((e, underscores), c # cs))"

text \<open>
  The end of \<open>readFloat\<close>: the exponent of the mantissa, the underscore rule on the text
  consumed, and the number of characters consumed.
\<close>

definition readFloat_finish ::
  "string \<Rightarrow> bool \<Rightarrow> bool \<Rightarrow> nat \<Rightarrow> int \<Rightarrow> int \<Rightarrow> bool \<Rightarrow> string
     \<Rightarrow> (bool \<times> bool \<times> nat \<times> int \<times> nat) option" where
  "readFloat_finish s neg hex mantissa ndMant dp underscores rest =
     (if underscores \<and> \<not> underscoreOK (take (length s - length rest) s) then None
      else Some (neg, hex, mantissa, (if mantissa \<noteq> 0 then dp - ndMant else 0),
                 length s - length rest))"

definition readFloat_exp_signed ::
  "string \<Rightarrow> bool \<Rightarrow> bool \<Rightarrow> nat \<Rightarrow> int \<Rightarrow> int \<Rightarrow> int \<Rightarrow> (nat \<times> bool) \<times> string
     \<Rightarrow> (bool \<times> bool \<times> nat \<times> int \<times> nat) option" where
  "readFloat_exp_signed s neg hex mantissa ndMant dp esign r =
     readFloat_finish s neg hex mantissa ndMant (dp + int (fst (fst r)) * esign) (snd (fst r))
       (snd r)"

definition readFloat_exp_digits_from ::
  "string \<Rightarrow> bool \<Rightarrow> bool \<Rightarrow> nat \<Rightarrow> int \<Rightarrow> int \<Rightarrow> bool \<Rightarrow> int \<Rightarrow> string
     \<Rightarrow> (bool \<times> bool \<times> nat \<times> int \<times> nat) option" where
  "readFloat_exp_digits_from s neg hex mantissa ndMant dp underscores esign r =
     (case r of
        [] \<Rightarrow> None
      | c # cs \<Rightarrow>
          if \<not> is_digit c then None
          else readFloat_exp_signed s neg hex mantissa ndMant dp esign
                 (readFloat_exp_digits r 0 underscores))"

definition readFloat_exponent ::
  "string \<Rightarrow> bool \<Rightarrow> bool \<Rightarrow> nat \<Rightarrow> int \<Rightarrow> int \<Rightarrow> bool \<Rightarrow> string
     \<Rightarrow> (bool \<times> bool \<times> nat \<times> int \<times> nat) option" where
  "readFloat_exponent s neg hex mantissa ndMant dp underscores rest =
     (case rest of
        [] \<Rightarrow> if hex then None
              else readFloat_finish s neg hex mantissa ndMant dp underscores rest
      | c # cs \<Rightarrow>
          if (if hex then lower_is c (CHR ''p'') (CHR ''P'') else lower_is c (CHR ''e'') (CHR ''E''))
          then (case cs of
                  [] \<Rightarrow> None
                | d # ds \<Rightarrow>
                    if d = CHR ''+''
                      then readFloat_exp_digits_from s neg hex mantissa ndMant dp underscores 1 ds
                    else if d = CHR ''-''
                      then readFloat_exp_digits_from s neg hex mantissa ndMant dp underscores (- 1) ds
                    else readFloat_exp_digits_from s neg hex mantissa ndMant dp underscores 1 cs)
          else if hex then None
          else readFloat_finish s neg hex mantissa ndMant dp underscores rest)"

definition readFloat_mantissa ::
  "string \<Rightarrow> bool \<Rightarrow> bool \<Rightarrow> (nat \<times> nat \<times> int \<times> bool \<times> bool \<times> bool) \<times> string
     \<Rightarrow> (bool \<times> bool \<times> nat \<times> int \<times> nat) option" where
  "readFloat_mantissa s neg hex r =
     (case r of
        ((mantissa, nd, dp, sawdot, sawdigits, underscores), rest) \<Rightarrow>
          if \<not> sawdigits then None
          else if hex
            then readFloat_exponent s neg hex mantissa (int nd * 4)
                   ((if sawdot then dp else int nd) * 4) underscores rest
          else readFloat_exponent s neg hex mantissa (int nd)
                 (if sawdot then dp else int nd) underscores rest)"

definition readFloat_base ::
  "string \<Rightarrow> bool \<Rightarrow> string \<Rightarrow> (bool \<times> bool \<times> nat \<times> int \<times> nat) option" where
  "readFloat_base s neg r =
     (case r of
        a # b # c # cs \<Rightarrow>
          if a = CHR ''0'' \<and> lower_is b (CHR ''x'') (CHR ''X'')
          then readFloat_mantissa s neg True
                 (readFloat_digits 16 (c # cs) 0 0 0 False False False)
          else readFloat_mantissa s neg False (readFloat_digits 10 r 0 0 0 False False False)
      | _ \<Rightarrow> readFloat_mantissa s neg False (readFloat_digits 10 r 0 0 0 False False False))"

definition readFloat :: "string \<Rightarrow> (bool \<times> bool \<times> nat \<times> int \<times> nat) option" where
  "readFloat s =
     (case s of
        [] \<Rightarrow> None
      | c # cs \<Rightarrow>
          if c = CHR ''+'' then readFloat_base s False cs
          else if c = CHR ''-'' then readFloat_base s True cs
          else readFloat_base s False s)"

text \<open>
  The conversion of the scanned number (\<open>atofHex\<close>, and for a decimal number the exact
  conversion the library ends in), and \<open>ParseFloat\<close> itself, which refuses a text that
  was not consumed to its end.
\<close>

definition atof64_value :: "bool \<Rightarrow> bool \<Rightarrow> nat \<Rightarrow> int \<Rightarrow> float64" where
  "atof64_value neg hex mantissa ex =
     (if hex then round_f64 neg mantissa 1 ex
      else if 0 \<le> ex then round_f64 neg (mantissa * 10 ^ nat ex) 1 0
      else round_f64 neg mantissa (10 ^ nat (- ex)) 0)"

definition atof64_result :: "float64 \<Rightarrow> parse_error + float64" where
  "atof64_result f = (case f of Infinity s \<Rightarrow> Inl ErrRange | _ \<Rightarrow> Inr f)"

definition ParseFloat :: "string \<Rightarrow> parse_error + float64" where
  "ParseFloat s =
     (case special s of
        Some (f, n) \<Rightarrow> if n \<noteq> length s then Inl ErrSyntax else Inr f
      | None \<Rightarrow>
          (case readFloat s of
             None \<Rightarrow> Inl ErrSyntax
           | Some (neg, hex, mantissa, ex, n) \<Rightarrow>
               if n \<noteq> length s then Inl ErrSyntax
               else atof64_result (atof64_value neg hex mantissa ex)))"

text \<open>\<open>ValidatePrice\<close> (order_builder.go).\<close>

definition ValidatePrice :: "float64 \<Rightarrow> TickSize \<Rightarrow> error + unit" where
  "ValidatePrice price tickSize =
     (if fle price (float64_of_nat 0) \<or> flt (float64_of_nat 1) price then Inl PriceOutOfRange
      else
        (case ParseFloat tickSize of
           Inl err \<Rightarrow> Inl InvalidTickSize
         | Inr tickSizeFloat \<Rightarrow>
             (let remainder = Mod price tickSizeFloat;
                  epsilon = fdiv tickSizeFloat (float64_of_nat 100)
              in if flt epsilon remainder \<and> flt epsilon (fsub tickSizeFloat remainder)
                 then Inl (NotTickMultiple tickSize)
                 else Inr ())))"

text \<open>
  The reading of a float64 as a real number, the format's normal form, and the distance
  from a price \<open>p\<close> to the nearest integer multiple of a tick \<open>t\<close> (the smaller of the
  distances to the multiple below and to the multiple above). They state what
  \<open>ValidatePrice\<close> decides.
\<close>

fun valof :: "float64 \<Rightarrow> real" where
  "valof (Finite s m e) = (if s then - 1 else 1) * real m * 2 powi e"
| "valof (Infinity s) = 0"
| "valof NaN = 0"

fun is_float64 :: "float64 \<Rightarrow> bool" where
  "is_float64 (Finite s m e) =
     (m < 2 ^ 53 \<and> - 1074 \<le> e \<and> e \<le> 971 \<and> (2 ^ 52 \<le> m \<or> e = - 1074))"
| "is_float64 (Infinity s) = True"
| "is_float64 NaN = True"

definition tick_distance :: "real \<Rightarrow> real \<Rightarrow> real" where
  "tick_distance p t =
     min (p - t * of_int \<lfloor>p / t\<rfloor>) (t * of_int \<lfloor>p / t\<rfloor> + t - p)"

text \<open>Powers of two with an integer exponent, named for the accuracy proofs.\<close>

definition pw :: "int \<Rightarrow> real" where
  "pw k = 2 powi k"

section \<open>Signing\<close>

text \<open>
  The go-ethereum primitives are parameters of the model: key parsing, address
  derivation, the EIP-712 struct hash, Keccak-256 and the secp256k1 signature. The
  private key type is left open.
\<close>

datatype msg_value = StringValue string | BigValue int

type_synonym TypedDataMessage = "string \<rightharpoonup> msg_value"

record TypedDataDomain =
  Name :: string
  Version :: string
  ChainId :: int
  VerifyingContract :: string

record TypedData =
  Types :: "(string \<times> (string \<times> string) list) list"
  PrimaryType :: string
  Domain :: TypedDataDomain
  Message :: TypedDataMessage

record 'k Ethereum =
  ToECDSA :: "byte list \<Rightarrow> 'k option"
  PubkeyToAddress :: "'k \<Rightarrow> string"
  HashStruct :: "TypedData \<Rightarrow> string \<Rightarrow> TypedDataMessage \<Rightarrow> byte list option"
  Keccak256 :: "byte list \<Rightarrow> byte list"
  Sign :: "byte list \<Rightarrow> 'k \<Rightarrow> byte list option"

text \<open>\<open>TypedDataDomain.Map\<close>: the chain id and every non-empty text field.\<close>

definition Domain_Map :: "TypedDataDomain \<Rightarrow> TypedDataMessage" where
  "Domain_Map d =
     (let m0 = [''chainId'' \<mapsto> BigValue (ChainId d)];
          m1 = (if Name d \<noteq> [] then m0(''name'' \<mapsto> StringValue (Name d)) else m0);
          m2 = (if Version d \<noteq> [] then m1(''version'' \<mapsto> StringValue (Version d)) else m1)
      in if VerifyingContract d \<noteq> []
         then m2(''verifyingContract'' \<mapsto> StringValue (VerifyingContract d)) else m2)"

text \<open>\<open>hexutil.Encode\<close> and \<open>hexutil.Decode\<close>: lower-case hexadecimal behind \<open>0x\<close>.\<close>

definition hex_digit :: "nat \<Rightarrow> char" where
  "hex_digit n = ''0123456789abcdef'' ! n"

definition hexutil_Encode :: "byte list \<Rightarrow> string" where
  "hexutil_Encode bs =
     ''0x'' @ concat (map (\<lambda>b. [hex_digit (unat b div 16), hex_digit (unat b mod 16)]) bs)"

definition from_hex_char :: "char \<Rightarrow> nat option" where
  "from_hex_char c =
     (let n = (of_char c :: nat)
      in if 48 \<le> n \<and> n \<le> 57 then Some (n - 48)
         else if 97 \<le> n \<and> n \<le> 102 then Some (n - 87)
         else if 65 \<le> n \<and> n \<le> 70 then Some (n - 55)
         else None)"

fun hex_DecodeString :: "string \<Rightarrow> byte list option" where
  "hex_DecodeString [] = Some []"
| "hex_DecodeString [c] = None"
| "hex_DecodeString (c # d # cs) =
     (case (from_hex_char c, from_hex_char d, hex_DecodeString cs) of
        (Some h, Some l, Some bs) \<Rightarrow> Some (of_nat (h * 16 + l) # bs)
      | _ \<Rightarrow> None)"

definition hexutil_Decode :: "string \<Rightarrow> byte list option" where
  "hexutil_Decode input =
     (case input of
        c # d # cs \<Rightarrow>
          if c = CHR ''0'' \<and> (d = CHR ''x'' \<or> d = CHR ''X'') then hex_DecodeString cs else None
      | _ \<Rightarrow> None)"

text \<open>\<open>GetAddressFromPrivateKey\<close> (signing.go).\<close>

definition GetAddressFromPrivateKey :: "'k Ethereum \<Rightarrow> string \<Rightarrow> error + string" where
  "GetAddressFromPrivateKey eth privateKey =
     (case hexutil_Decode privateKey of
        None \<Rightarrow> Inl InvalidPrivateKey
      | Some privateKeyBytes \<Rightarrow>
          (case ToECDSA eth privateKeyBytes of
             None \<Rightarrow> Inl ParsePrivateKeyFailed
           | Some key \<Rightarrow> Inr (PubkeyToAddress eth key)))"

text \<open>
  The closing statements shared by \<open>BuildClobEip712Signature\<close> and
  \<open>BuildOrderSignature\<close>: the digest of \<open>0x19 0x01\<close>, the domain separator and the
  message hash is signed, and byte 64 of the signature is raised by 27 when it is below
  27. Indexing a shorter signature panics.
\<close>

definition sign_typed_hash :: "'k Ethereum \<Rightarrow> 'k \<Rightarrow> byte list \<Rightarrow> byte list \<Rightarrow> error + string" where
  "sign_typed_hash eth key domainSeparator messageHash =
     (let rawData = [0x19, 0x01] @ domainSeparator @ messageHash;
          hash = Keccak256 eth rawData
      in case Sign eth hash key of
           None \<Rightarrow> Inl SignFailed
         | Some signature \<Rightarrow>
             if length signature \<le> 64 then Inl IndexOutOfRange
             else Inr (hexutil_Encode
                         (if signature ! 64 < 27 then signature[64 := signature ! 64 + 27]
                          else signature)))"

definition hash_and_sign :: "'k Ethereum \<Rightarrow> 'k \<Rightarrow> TypedData \<Rightarrow> error + string" where
  "hash_and_sign eth key typedData =
     (case HashStruct eth typedData ''EIP712Domain'' (Domain_Map (Domain typedData)) of
        None \<Rightarrow> Inl HashDomainFailed
      | Some domainSeparator \<Rightarrow>
          (case HashStruct eth typedData (PrimaryType typedData) (Message typedData) of
             None \<Rightarrow> Inl HashMessageFailed
           | Some messageHash \<Rightarrow> sign_typed_hash eth key domainSeparator messageHash))"

text \<open>\<open>BuildClobEip712Signature\<close> (signing.go).\<close>

definition ClobAuthDomain :: string where "ClobAuthDomain = ''ClobAuthDomain''"
definition ClobVersion :: string where "ClobVersion = ''1''"

definition ClobAuth_typedData :: "int \<Rightarrow> TypedData" where
  "ClobAuth_typedData chainID =
     \<lparr>Types =
        [(''EIP712Domain'',
            [(''name'', ''string''), (''version'', ''string''), (''chainId'', ''uint256'')]),
         (''ClobAuth'',
            [(''address'', ''address''), (''timestamp'', ''string''), (''nonce'', ''string''),
             (''message'', ''string'')])],
      PrimaryType = ''ClobAuth'',
      Domain = \<lparr>Name = ClobAuthDomain, Version = ClobVersion, ChainId = chainID,
                 VerifyingContract = []\<rparr>,
      Message = Map.empty\<rparr>"

definition BuildClobEip712Signature ::
  "'k Ethereum \<Rightarrow> int \<Rightarrow> string \<Rightarrow> int64 \<Rightarrow> string \<Rightarrow> error + string" where
  "BuildClobEip712Signature eth chainID privateKey timestamp nonce =
     (case hexutil_Decode privateKey of
        None \<Rightarrow> Inl InvalidPrivateKey
      | Some privateKeyBytes \<Rightarrow>
          (case ToECDSA eth privateKeyBytes of
             None \<Rightarrow> Inl ParsePrivateKeyFailed
           | Some key \<Rightarrow>
               hash_and_sign eth key
                 ((ClobAuth_typedData chainID)
                    \<lparr>Message :=
                       [''address'' \<mapsto> StringValue (PubkeyToAddress eth key),
                        ''timestamp'' \<mapsto> StringValue (Int_String (sint timestamp)),
                        ''nonce'' \<mapsto> StringValue nonce,
                        ''message'' \<mapsto> StringValue ''Signing in to ClobAuth'']\<rparr>)))"

section \<open>Orders\<close>

record SignedOrder =
  Salt :: int64
  Maker :: string
  Signer :: string
  Taker :: string
  TokenID :: string
  MakerAmount :: string
  TakerAmount :: string
  Expiration :: string
  Nonce :: string
  FeeRateBps :: string
  Side :: Side
  SignatureType :: SignatureType
  Signature :: string

record UserOrder =
  TokenID :: string
  Price :: float64
  Size :: float64
  Side :: Side
  FeeRateBps :: "int option"
  Nonce :: "int64 option"
  Expiration :: "int64 option"
  Taker :: "string option"

record CreateOrderOptions =
  TickSize :: TickSize
  NegRisk :: "bool option"

record OrderBuilder =
  PrivateKey :: string
  ChainID :: int
  SignatureType :: SignatureType
  FunderAddress :: "string option"

text \<open>\<open>BuildOrderSignature\<close> (signing.go).\<close>

definition Order_typedData :: "int \<Rightarrow> TypedData" where
  "Order_typedData chainID =
     \<lparr>Types =
        [(''EIP712Domain'',
            [(''name'', ''string''), (''version'', ''string''), (''chainId'', ''uint256''),
             (''verifyingContract'', ''address'')]),
         (''Order'',
            [(''salt'', ''uint256''), (''maker'', ''address''), (''signer'', ''address''),
             (''taker'', ''address''), (''tokenId'', ''uint256''), (''makerAmount'', ''uint256''),
             (''takerAmount'', ''uint256''), (''expiration'', ''uint256''), (''nonce'', ''uint256''),
             (''feeRateBps'', ''uint256''), (''side'', ''uint8''), (''signatureType'', ''uint8'')])],
      PrimaryType = ''Order'',
      Domain = \<lparr>Name = ''Polymarket CTF Exchange'', Version = ''1'', ChainId = chainID,
                 VerifyingContract = getExchangeAddress chainID\<rparr>,
      Message = Map.empty\<rparr>"

definition Order_message :: "SignedOrder \<Rightarrow> SignatureType \<Rightarrow> TypedDataMessage" where
  "Order_message order signatureType =
     [''salt'' \<mapsto> StringValue (Int_String (sint (Salt order))),
      ''maker'' \<mapsto> StringValue (Maker order),
      ''signer'' \<mapsto> StringValue (Signer order),
      ''taker'' \<mapsto> StringValue (SignedOrder.Taker order),
      ''tokenId'' \<mapsto> StringValue (SignedOrder.TokenID order),
      ''makerAmount'' \<mapsto> StringValue (MakerAmount order),
      ''takerAmount'' \<mapsto> StringValue (TakerAmount order),
      ''expiration'' \<mapsto> StringValue (SignedOrder.Expiration order),
      ''nonce'' \<mapsto> StringValue (SignedOrder.Nonce order),
      ''feeRateBps'' \<mapsto> StringValue (SignedOrder.FeeRateBps order),
      ''side'' \<mapsto> StringValue (Int_String (if SignedOrder.Side order = SideBuy then 0 else 1)),
      ''signatureType'' \<mapsto> StringValue (Int_String signatureType)]"

definition BuildOrderSignature ::
  "'k Ethereum \<Rightarrow> int \<Rightarrow> string \<Rightarrow> SignedOrder \<Rightarrow> SignatureType \<Rightarrow> error + string" where
  "BuildOrderSignature eth chainID privateKey order signatureType =
     (case hexutil_Decode privateKey of
        None \<Rightarrow> Inl InvalidPrivateKey
      | Some privateKeyBytes \<Rightarrow>
          (case ToECDSA eth privateKeyBytes of
             None \<Rightarrow> Inl ParsePrivateKeyFailed
           | Some key \<Rightarrow>
               hash_and_sign eth key
                 ((Order_typedData chainID)\<lparr>Message := Order_message order signatureType\<rparr>)))"



section \<open>Request authentication\<close>

text \<open>
  \<open>base64.URLEncoding.EncodeToString\<close>: three bytes give four characters of the URL
  alphabet; a tail of one or two bytes is padded with \<open>=\<close>.
\<close>

definition encodeURL :: string where
  "encodeURL = ''ABCDEFGHIJKLMNOPQRSTUVWXYZabcdefghijklmnopqrstuvwxyz0123456789-_''"

definition enc64 :: "64 word \<Rightarrow> char" where
  "enc64 v = encodeURL ! unat (v AND 0x3F)"

fun EncodeToString :: "byte list \<Rightarrow> string" where
  "EncodeToString (a # b # c # rest) =
     [enc64 (drop_bit 18 (push_bit 16 (ucast a) OR push_bit 8 (ucast b) OR ucast c)),
      enc64 (drop_bit 12 (push_bit 16 (ucast a) OR push_bit 8 (ucast b) OR ucast c)),
      enc64 (drop_bit 6 (push_bit 16 (ucast a) OR push_bit 8 (ucast b) OR ucast c)),
      enc64 (push_bit 16 (ucast a) OR push_bit 8 (ucast b) OR ucast c)]
     @ EncodeToString rest"
| "EncodeToString [a, b] =
     [enc64 (drop_bit 18 (push_bit 16 (ucast a) OR push_bit 8 (ucast b))),
      enc64 (drop_bit 12 (push_bit 16 (ucast a) OR push_bit 8 (ucast b))),
      enc64 (drop_bit 6 (push_bit 16 (ucast a) OR push_bit 8 (ucast b))),
      CHR ''='']"
| "EncodeToString [a] =
     [enc64 (drop_bit 18 (push_bit 16 (ucast a))),
      enc64 (drop_bit 12 (push_bit 16 (ucast a))),
      CHR ''='', CHR ''='']"
| "EncodeToString [] = []"

text \<open>\<open>strings.TrimRight\<close> for a cutset of ASCII characters.\<close>

definition TrimRight :: "string \<Rightarrow> string \<Rightarrow> string" where
  "TrimRight str cutset = rev (dropWhile (\<lambda>c. c \<in> set cutset) (rev str))"

definition bytes_of :: "string \<Rightarrow> byte list" where
  "bytes_of str = map of_char str"

text \<open>
  \<open>BuildPolyHmacSignature\<close> (signing.go). HMAC-SHA256 of the standard library is the
  parameter \<open>hmac_sha256 key message\<close>.
\<close>

definition BuildPolyHmacSignature ::
  "(byte list \<Rightarrow> byte list \<Rightarrow> byte list) \<Rightarrow> string \<Rightarrow> int64 \<Rightarrow> string \<Rightarrow> string \<Rightarrow> string
     \<Rightarrow> error + string" where
  "BuildPolyHmacSignature hmac_sha256 secret timestamp method requestPath body =
     (let message = Int_String (sint timestamp) @ method @ requestPath @ body;
          hash = hmac_sha256 (bytes_of secret) (bytes_of message);
          signature = EncodeToString hash
      in Inr (TrimRight signature ''=''))"

text \<open>
  The encoding as RFC 4648 words it, without padding: the bits of the input, most
  significant bit of each byte first, are cut into groups of six, the last group filled
  up with zero bits, and every group is the index of a character of the alphabet.
\<close>

definition bits8 :: "byte \<Rightarrow> bool list" where
  "bits8 b = map (bit b) [7, 6, 5, 4, 3, 2, 1, 0]"

definition bits_val :: "bool list \<Rightarrow> nat" where
  "bits_val bs = foldl (\<lambda>n b. 2 * n + of_bool b) 0 bs"

fun sextets :: "bool list \<Rightarrow> bool list list" where
  "sextets [] = []"
| "sextets (b # bs) = take 6 (b # bs @ [False, False, False, False, False]) # sextets (drop 5 bs)"

definition base64url_unpadded :: "byte list \<Rightarrow> string" where
  "base64url_unpadded bs = map (\<lambda>s. encodeURL ! bits_val s) (sextets (concat (map bits8 bs)))"

section \<open>An instance of the primitives\<close>

text \<open>
  Stand-ins for the go-ethereum primitives, used to run the signing functions on
  concrete inputs: a key is its 32 bytes, hashes are 32 bytes long, and every signature
  has 65 bytes with recovery id 1.
\<close>

definition stub_ethereum :: "byte list Ethereum" where
  "stub_ethereum =
     \<lparr>ToECDSA = (\<lambda>bs. if length bs = 32 then Some bs else None),
      PubkeyToAddress = (\<lambda>k. ''0x00000000000000000000000000000000000000aa''),
      HashStruct = (\<lambda>td name msg. if msg name = None then Some (replicate 32 2) else None),
      Keccak256 = (\<lambda>bs. take 32 bs),
      Sign = (\<lambda>h k. if length h = 32 \<and> length k = 32 then Some (h @ k @ [1]) else None)\<rparr>"

definition stub_key :: string where
  "stub_key = ''0x0101010101010101010101010101010101010101010101010101010101010101''"



definition stub_order :: SignedOrder where
  "stub_order =
     \<lparr>Salt = 5, Maker = ''0x00000000000000000000000000000000000000aa'',
      Signer = ''0x00000000000000000000000000000000000000aa'',
      Taker = ''0x0000000000000000000000000000000000000000'',
      TokenID = ''1234'', MakerAmount = ''5250000'', TakerAmount = ''10000000'',
      Expiration = ''0'', Nonce = ''0'', FeeRateBps = ''0'', Side = ''BUY'',
      SignatureType = 0, Signature = []\<rparr>"

section \<open>Properties\<close>

subsection \<open>Evaluation of the arithmetic\<close>

lemmas f64_eval = round_f64_def round_at_def pack_f64_def rne_scaled_def round_exponent_def
  floor_log2_def log2_adjust_def rne_def rne_qr_def bit_length.simps float64_of_nat_def
  float64_of_int_def float64_lit_def scaled_def feq_def fadd_exact_def round_half_away_def

lemmas pow_eval = Pow10_def pow10_def pow_finish_def pow_loop.simps pow_renorm_def

lemmas units_eval = SetString_def Int_String_def dec.simps is_digit_def digits_val_def

lemma float64_of_nat_0: "float64_of_nat 0 = Finite False 0 (- 1074)"
  by (simp add: f64_eval)

lemma float64_of_nat_1: "float64_of_nat 1 = Finite False 4503599627370496 (- 52)"
  by (simp add: f64_eval)

lemma Pow10_2: "Pow10 2 = Finite False 7036874417766400 (- 46)"
  by (simp add: pow_eval f64_eval)

lemmas parse_eval = ParseFloat_def special_def special_inf_def readFloat_def readFloat_base_def
  readFloat_mantissa_def readFloat_exponent_def readFloat_exp_digits_from_def
  readFloat_exp_signed_def readFloat_finish_def underscoreOK_def underscoreOK_number_def
  atof64_value_def atof64_result_def is_digit_def lower_is_def is_hex_letter_def
  hex_letter_val_def

lemma ParseFloat_ticks:
  "ParseFloat ''0.1'' = Inr (Finite False 7205759403792794 (- 56))"
  "ParseFloat ''0.01'' = Inr (Finite False 5764607523034235 (- 59))"
  "ParseFloat ''0.001'' = Inr (Finite False 4611686018427388 (- 62))"
  "ParseFloat ''0.0001'' = Inr (Finite False 7378697629483821 (- 66))"
  by (simp_all add: parse_eval f64_eval)

lemma ParseFloat_spellings:
  "ParseFloat ''inf'' = Inr (Infinity False)"
  "ParseFloat ''nan'' = Inr NaN"
  "ParseFloat ''0.0_1'' = Inr (Finite False 5764607523034235 (- 59))"
  "ParseFloat ''0x1p-4'' = Inr (Finite False 4503599627370496 (- 56))"
  "ParseFloat ''0.01x'' = Inl ErrSyntax"
  by (simp_all add: parse_eval f64_eval)

lemma flt_not_fle: "flt a b \<Longrightarrow> \<not> fle b a"
  by (cases a; cases b) (auto simp: min.commute)

lemma fle_not_flt: "fle a b \<Longrightarrow> \<not> flt b a"
  by (cases a; cases b) (auto simp: min.commute)

subsection \<open>Accuracy of the rounding\<close>

lemma bit_length_bounds: "0 < n \<Longrightarrow> 2 ^ (bit_length n - 1) \<le> n \<and> n < 2 ^ bit_length n"
proof (induction n rule: bit_length.induct)
  case (1 n)
  show ?case
  proof (cases "n div 2 = 0")
    case True
    with "1.prems" have "n = 1" by (cases n) auto
    then show ?thesis by (simp add: bit_length.simps)
  next
    case False
    then have pos: "0 < n div 2" by simp
    from "1.prems" have n0: "n \<noteq> 0" by simp
    from "1.IH" [OF n0 pos] have ih: "2 ^ (bit_length (n div 2) - 1) \<le> n div 2" "n div 2 < 2 ^ bit_length (n div 2)"
      by simp_all
    have bl: "bit_length n = Suc (bit_length (n div 2))"
      using n0 by (subst bit_length.simps) simp
    have blpos: "0 < bit_length (n div 2)"
      using pos by (subst bit_length.simps) simp
    from ih blpos show ?thesis
      unfolding bl by (cases "bit_length (n div 2)") (auto simp: )
  qed
qed

lemma bit_length_pos: "0 < n \<Longrightarrow> 0 < bit_length n"
  by (subst bit_length.simps) simp

lemma rne_error:
  assumes "0 < d"
  shows "\<bar>real (rne n d) - real n / real d\<bar> \<le> 1 / 2"
proof -
  define q r where "q = n div d" and "r = n mod d"
  have "n = q * d + r"
    unfolding q_def r_def by simp
  then have "real n = real (q * d + r)"
    by simp
  then have n: "real n = real q * real d + real r"
    by simp
  have r: "r < d"
    unfolding r_def using assms by simp
  from assms n have frac: "real n / real d = real q + real r / real d"
    by (simp add: field_simps)
  define t where "t = real r / real d"
  have t1: "t < 1 / 2" if "2 * r < d"
    using that assms by (simp add: t_def field_simps)
  have t2: "1 / 2 < t" if "d < 2 * r"
    using that assms by (simp add: t_def field_simps)
  have t3: "t = 1 / 2" if "\<not> 2 * r < d" "\<not> d < 2 * r"
  proof -
    from that have "2 * r = d" by simp
    then have "real (2 * r) = real d" by simp
    then have "2 * real r = real d" by simp
    with assms show ?thesis by (simp add: t_def field_simps)
  qed
  have t4: "t < 1" "0 \<le> t"
    using r assms by (simp_all add: t_def)
  consider "2 * r < d" | "d < 2 * r" | "\<not> 2 * r < d" "\<not> d < 2 * r"
    by linarith
  then show ?thesis
  proof cases
    case 1
    then have "rne n d = q"
      by (simp add: rne_def rne_qr_def q_def r_def)
    with t1 [OF 1] t4 show ?thesis
      by (simp add: frac t_def [symmetric])
  next
    case 2
    then have "rne n d = q + 1"
      by (simp add: rne_def rne_qr_def q_def r_def)
    with t2 [OF 2] t4 show ?thesis
      by (simp add: frac t_def [symmetric] abs_if)
  next
    case 3
    then have "rne n d = q \<or> rne n d = q + 1"
      by (simp add: rne_def rne_qr_def q_def r_def)
    with t3 [OF 3] show ?thesis
      by (auto simp: frac t_def [symmetric])
  qed
qed

lemma floor_log2_bounds:
  assumes "0 < n" "0 < d"
  shows "2 powi (floor_log2 n d) \<le> real n / real d"
    and "real n / real d < 2 powi (floor_log2 n d + 1)"
proof -
  define bn bd where "bn = bit_length n" and "bd = bit_length d"
  from bit_length_bounds [OF assms(1)] have n: "2 ^ (bn - 1) \<le> n" "n < 2 ^ bn"
    by (simp_all add: bn_def)
  from bit_length_bounds [OF assms(2)] have d: "2 ^ (bd - 1) \<le> d" "d < 2 ^ bd"
    by (simp_all add: bd_def)
  have bpos: "0 < bn" "0 < bd"
    using assms by (simp_all add: bn_def bd_def bit_length_pos)
  have rn: "2 ^ (bn - 1) \<le> real n" "real n < 2 ^ bn"
  proof -
    from n(1) have "real (2 ^ (bn - 1)) \<le> real n" by (rule of_nat_mono)
    then show "2 ^ (bn - 1) \<le> real n" by simp
    from n(2) have "real n < real (2 ^ bn)" by (simp only: of_nat_less_iff)
    then show "real n < 2 ^ bn" by simp
  qed
  have rd: "2 ^ (bd - 1) \<le> real d" "real d < 2 ^ bd"
  proof -
    from d(1) have "real (2 ^ (bd - 1)) \<le> real d" by (rule of_nat_mono)
    then show "2 ^ (bd - 1) \<le> real d" by simp
    from d(2) have "real d < real (2 ^ bd)" by (simp only: of_nat_less_iff)
    then show "real d < 2 ^ bd" by simp
  qed
  have dpos: "0 < real d" using assms by simp
  have pw: "(2::real) powi (int a - int b) = 2 ^ a / 2 ^ b" for a b
    by (simp add: power_int_diff)
  have pw1: "(2::real) powi (int a - int b - 1) = 2 ^ a / 2 ^ b / 2" for a b
    by (simp add: power_int_diff)
  have pw2: "(2::real) powi (int a - int b + 1) = 2 ^ a / 2 ^ b * 2" for a b
    by (simp add: power_int_add power_int_diff)
  have half: "(2::real) ^ bn = 2 * 2 ^ (bn - 1)" "(2::real) ^ bd = 2 * 2 ^ (bd - 1)"
  proof -
    from bpos show "(2::real) ^ bn = 2 * 2 ^ (bn - 1)" by (cases bn) simp_all
    from bpos show "(2::real) ^ bd = 2 * 2 ^ (bd - 1)" by (cases bd) simp_all
  qed
  show "2 powi (floor_log2 n d) \<le> real n / real d"
  proof (cases "n * 2 ^ bd < d * 2 ^ bn")
    case True
    then have E: "floor_log2 n d = int bn - int bd - 1"
      by (simp add: floor_log2_def log2_adjust_def bn_def bd_def)
    have "2 ^ bn / 2 ^ bd / 2 = 2 ^ (bn - 1) / (2::real) ^ bd"
      using half by simp
    also have "\<dots> \<le> real n / 2 ^ bd"
      using rn by (simp add: divide_right_mono)
    also have "\<dots> \<le> real n / real d"
      using rd dpos by (simp add: frac_le)
    finally show ?thesis
      unfolding E pw1 .
  next
    case False
    then have E: "floor_log2 n d = int bn - int bd"
      by (simp add: floor_log2_def log2_adjust_def bn_def bd_def)
    from False have "d * 2 ^ bn \<le> n * 2 ^ bd" by simp
    then have "real (d * 2 ^ bn) \<le> real (n * 2 ^ bd)"
      by (rule of_nat_mono)
    then have "real d * 2 ^ bn \<le> real n * 2 ^ bd"
      by simp
    then have "2 ^ bn / 2 ^ bd \<le> real n / real d"
      using dpos by (simp add: field_simps)
    then show ?thesis
      unfolding E pw .
  qed
  show "real n / real d < 2 powi (floor_log2 n d + 1)"
  proof (cases "n * 2 ^ bd < d * 2 ^ bn")
    case True
    then have E: "floor_log2 n d + 1 = int bn - int bd"
      by (simp add: floor_log2_def log2_adjust_def bn_def bd_def)
    from True have "real (n * 2 ^ bd) < real (d * 2 ^ bn)"
      by (simp only: of_nat_less_iff)
    then have "real n * 2 ^ bd < real d * 2 ^ bn"
      by simp
    then have "real n / real d < 2 ^ bn / 2 ^ bd"
      using dpos by (simp add: field_simps)
    then show ?thesis
      unfolding E pw .
  next
    case False
    then have E: "floor_log2 n d + 1 = int bn - int bd + 1"
      by (simp add: floor_log2_def log2_adjust_def bn_def bd_def)
    have "real n / real d < 2 ^ bn / real d"
      using rn dpos by (simp add: divide_strict_right_mono)
    also have "\<dots> \<le> 2 ^ bn / 2 ^ (bd - 1)"
      using rd by (simp add: frac_le)
    also have "\<dots> = 2 ^ bn / 2 ^ bd * 2"
      using half by simp
    finally show ?thesis
      unfolding E pw2 .
  qed
qed


lemma pow2_less_D: "(2::real) powi a < 2 powi b \<Longrightarrow> a < b"
proof (rule ccontr)
  assume lt: "(2::real) powi a < 2 powi b" and "\<not> a < b"
  then have "b \<le> a" by simp
  then have "(2::real) powi b \<le> 2 powi a"
    by (rule power_int_increasing) simp
  with lt show False by simp
qed

lemma pow2_split: "(2::real) powi (a + b) = 2 powi a * 2 powi b"
  by (simp add: power_int_add)

lemma rne_scaled_error:
  assumes "0 < d"
  shows "\<bar>real (rne_scaled n d sh) - real n / real d * 2 powi sh\<bar> \<le> 1 / 2"
proof (cases "0 \<le> sh")
  case True
  then have p: "2 powi sh = (2::real) ^ nat sh"
    by (simp add: power_int_nonneg_exp)
  have v: "real n / real d * 2 powi sh = real (n * 2 ^ nat sh) / real d"
    unfolding p by simp
  have r: "rne_scaled n d sh = rne (n * 2 ^ nat sh) d"
    using True by (simp add: rne_scaled_def)
  from rne_error [OF assms, of "n * 2 ^ nat sh"] show ?thesis
    unfolding r v .
next
  case False
  then have p: "2 powi sh = 1 / (2::real) ^ nat (- sh)"
    by (simp add: power_int_def field_simps)
  have v: "real n / real d * 2 powi sh = real n / real (d * 2 ^ nat (- sh))"
    unfolding p by simp
  have r: "rne_scaled n d sh = rne n (d * 2 ^ nat (- sh))"
    using False by (simp add: rne_scaled_def)
  have "0 < d * 2 ^ nat (- sh)"
    using assms by simp
  from rne_error [OF this, of n] show ?thesis
    unfolding r v .
qed

lemma round_f64_normal:
  assumes n: "0 < n" and d: "0 < d"
    and lo: "2 powi (- 1022) \<le> real n / real d * 2 powi x"
    and hi: "real n / real d * 2 powi x < 2 powi 1023"
  shows "\<exists>m e. round_f64 s n d x = Finite s m e \<and> 2 ^ 52 \<le> m \<and> m < 2 ^ 53 \<and> e \<le> 971
           \<and> \<bar>real m * 2 powi e - real n / real d * 2 powi x\<bar>
               \<le> real n / real d * 2 powi x / 2 ^ 53"
proof -
  define v0 where "v0 = real n / real d"
  define v where "v = v0 * 2 powi x"
  define E where "E = floor_log2 n d"
  from floor_log2_bounds [OF n d] have E1: "2 powi E \<le> v0" and E2: "v0 < 2 powi (E + 1)"
    by (simp_all add: v0_def E_def)
  have px: "0 < (2::real) powi k" for k
    by simp
  have vlo: "2 powi (E + x) \<le> v"
    unfolding v_def pow2_split [of E x] using E1 px [of x] by (intro mult_right_mono) simp_all
  have vhi: "v < 2 powi (E + 1 + x)"
    unfolding v_def pow2_split [of "E + 1" x] using E2 px [of x] by (intro mult_strict_right_mono)
  have lo': "2 powi (- 1022) \<le> v" and hi': "v < 2 powi 1023"
    unfolding v_def v0_def by (rule lo, rule hi)
  from lo' vhi have "(2::real) powi (- 1022) < 2 powi (E + 1 + x)"
    by (rule order_le_less_trans)
  then have Elo: "- 1022 < E + 1 + x"
    by (rule pow2_less_D)
  from vlo hi' have "(2::real) powi (E + x) < 2 powi 1023"
    by (rule order_le_less_trans)
  then have Ehi: "E + x < 1023"
    by (rule pow2_less_D)
  define e where "e = E + x - 52"
  have re: "round_exponent n d x = e"
    using Elo by (simp add: round_exponent_def E_def e_def)
  define q where "q = v0 * 2 powi (x - e)"
  define m0 where "m0 = rne_scaled n d (x - e)"
  have qv: "q * 2 powi e = v"
    unfolding q_def v_def by (simp add: power_int_diff)
  have xe: "x - e = 52 - E"
    by (simp add: e_def)
  have q1: "2 ^ 52 \<le> q"
  proof -
    have "2 powi E * 2 powi (52 - E) \<le> v0 * 2 powi (52 - E)"
      using E1 px [of "52 - E"] by (intro mult_right_mono) simp_all
    moreover have "(2::real) powi E * 2 powi (52 - E) = 2 ^ 52"
      unfolding pow2_split [of E "52 - E", symmetric] by simp
    ultimately show ?thesis
      unfolding q_def xe by simp
  qed
  have q2: "q < 2 ^ 53"
  proof -
    have "v0 * 2 powi (52 - E) < 2 powi (E + 1) * 2 powi (52 - E)"
      using E2 px [of "52 - E"] by (intro mult_strict_right_mono)
    moreover have "(2::real) powi (E + 1) * 2 powi (52 - E) = 2 ^ 53"
      unfolding pow2_split [of "E + 1" "52 - E", symmetric] by simp
    ultimately show ?thesis
      unfolding q_def xe by simp
  qed
  have err: "\<bar>real m0 - q\<bar> \<le> 1 / 2"
    using rne_scaled_error [OF d, of n "x - e"] by (simp add: m0_def q_def v0_def)
  have m1: "2 ^ 52 \<le> m0"
  proof (rule ccontr)
    assume "\<not> 2 ^ 52 \<le> m0"
    then have "m0 \<le> 4503599627370495"
      by simp
    then have "real m0 \<le> 4503599627370495"
      by (simp only: of_nat_le_iff [symmetric, where 'a = real] of_nat_numeral)
    with err q1 show False
      by simp
  qed
  have m2: "m0 \<le> 2 ^ 53"
  proof (rule ccontr)
    assume "\<not> m0 \<le> 2 ^ 53"
    then have "9007199254740993 \<le> m0"
      by simp
    then have "9007199254740993 \<le> real m0"
      by (simp only: of_nat_le_iff [symmetric, where 'a = real] of_nat_numeral)
    with err q2 show False
      by simp
  qed
  have ulp: "2 powi e / 2 \<le> v / 2 ^ 53"
  proof -
    have "(2::real) powi e / 2 = 2 powi (E + x) / 2 ^ 53"
      by (simp add: e_def power_int_diff)
    also have "\<dots> \<le> v / 2 ^ 53"
      using vlo by (simp add: divide_right_mono)
    finally show ?thesis .
  qed
  have abs_err: "\<bar>real m0 * 2 powi e - v\<bar> \<le> v / 2 ^ 53"
  proof -
    have "\<bar>real m0 * 2 powi e - v\<bar> = \<bar>real m0 - q\<bar> * 2 powi e"
      unfolding qv [symmetric] by (simp add: abs_mult flip: left_diff_distrib)
    also have "\<dots> \<le> 1 / 2 * 2 powi e"
      using err px [of e] by (intro mult_right_mono) simp_all
    also have "\<dots> = 2 powi e / 2"
      by simp
    also have "\<dots> \<le> v / 2 ^ 53"
      by (rule ulp)
    finally show ?thesis .
  qed
  have n0: "n \<noteq> 0" using n by simp
  have rf: "round_f64 s n d x = pack_f64 s m0 e"
    using n0 by (simp add: round_f64_def round_at_def re m0_def)
  show ?thesis
  proof (cases "m0 = 2 ^ 53")
    case True
    have "round_f64 s n d x = Finite s (2 ^ 52) (e + 1)"
      using True Ehi by (simp add: rf pack_f64_def e_def)
    moreover have "real ((2::nat) ^ 52) * 2 powi (e + 1) = real m0 * 2 powi e"
      unfolding True by (simp add: pow2_split)
    moreover have "e + 1 \<le> 971"
      using Ehi by (simp add: e_def)
    ultimately show ?thesis
      using abs_err by (auto simp: v_def v0_def simp del: of_nat_power of_nat_numeral)
  next
    case False
    with m2 have m3: "m0 < 2 ^ 53" by simp
    have "round_f64 s n d x = Finite s m0 e"
      using False Ehi by (simp add: rf pack_f64_def e_def)
    moreover have "e \<le> 971"
      using Ehi by (simp add: e_def)
    ultimately show ?thesis
      using abs_err m1 m3 by (auto simp: v_def v0_def)
  qed
qed


lemma rne_one: "rne n 1 = n" "rne n (Suc 0) = n"
  by (simp_all add: rne_def rne_qr_def)

lemma round_f64_nat_exact:
  assumes K: "0 < K" "K < 2 ^ 53"
  shows "\<exists>m e. round_f64 s K 1 0 = Finite s m e \<and> 0 < m \<and> real m * 2 powi e = real K"
proof -
  define E where "E = floor_log2 K 1"
  from floor_log2_bounds [of K 1] K have E1: "2 powi E \<le> real K" and E2: "real K < 2 powi (E + 1)"
    by (simp_all add: E_def)
  have "real K < real (2 ^ 53)"
    using K(2) by (simp only: of_nat_less_iff)
  then have K53: "real K < 2 powi 53"
    by simp
  from E1 K53 have "(2::real) powi E < 2 powi 53"
    by (rule order_le_less_trans)
  then have Ehi: "E < 53"
    by (rule pow2_less_D)
  have "1 \<le> real K"
    using K(1) by simp
  then have "(2::real) powi 0 \<le> real K"
    by simp
  from this E2 have "(2::real) powi 0 < 2 powi (E + 1)"
    by (rule order_le_less_trans)
  then have Elo: "0 < E + 1"
    by (rule pow2_less_D)
  have re: "round_exponent K 1 0 = E - 52"
    using Elo by (simp add: round_exponent_def E_def)
  define m0 where "m0 = K * 2 ^ nat (52 - E)"
  have sc: "rne_scaled K 1 (0 - (E - 52)) = m0"
    using Ehi by (simp add: rne_scaled_def rne_one m0_def)
  have p: "(2::real) powi (52 - E) = 2 ^ nat (52 - E)"
    using Ehi by (simp add: power_int_nonneg_exp)
  have rm: "real m0 = real K * 2 powi (52 - E)"
    unfolding p m0_def by simp
  have val: "real m0 * 2 powi (E - 52) = real K"
  proof -
    have "(2::real) powi (52 - E) * 2 powi (E - 52) = 1"
      unfolding pow2_split [of "52 - E" "E - 52", symmetric] by simp
    then show ?thesis
      unfolding rm by (simp add: mult.assoc)
  qed
  have "real m0 < 2 powi (E + 1) * 2 powi (52 - E)"
    unfolding rm using E2 by (intro mult_strict_right_mono) simp_all
  moreover have "(2::real) powi (E + 1) * 2 powi (52 - E) = 2 ^ 53"
    unfolding pow2_split [of "E + 1" "52 - E", symmetric] by simp
  ultimately have "real m0 < real (2 ^ 53)"
    by simp
  then have m53: "m0 < 2 ^ 53"
    by (simp only: of_nat_less_iff)
  have mpos: "0 < m0"
    using K(1) by (simp add: m0_def)
  have "round_f64 s K 1 0 = pack_f64 s m0 (E - 52)"
    unfolding round_f64_def round_at_def re sc using K(1) by simp
  also have "\<dots> = Finite s m0 (E - 52)"
    unfolding pack_f64_def using m53 Ehi by simp
  finally show ?thesis
    using val mpos by blast
qed

lemma round_half_away_nearest:
  assumes D: "0 < D" and near: "\<bar>real m / real D - real K\<bar> < 1 / 2"
  shows "round_half_away (m div D) (m mod D) D = K"
proof -
  define q r where "q = m div D" and "r = m mod D"
  have "m = q * D + r"
    unfolding q_def r_def by simp
  then have "real m = real (q * D + r)"
    by simp
  then have m: "real m = real q * real D + real r"
    by simp
  have r: "r < D"
    unfolding r_def using D by simp
  define t where "t = real r / real D"
  from D m have frac: "real m / real D = real q + t"
    by (simp add: t_def field_simps)
  have t0: "0 \<le> t" "t < 1"
    using r D by (simp_all add: t_def)
  from near have n1: "real q + t - real K < 1 / 2" and n2: "- (1 / 2) < real q + t - real K"
    unfolding frac by linarith+
  show ?thesis
  proof (cases "D \<le> 2 * r")
    case True
    then have "real D \<le> real (2 * r)"
      by (simp only: of_nat_le_iff)
    then have "1 / 2 \<le> t"
      using D by (simp add: t_def field_simps)
    with n1 n2 t0 have "real q + 1 - real K < 1" "- 1 < real q + 1 - real K"
      by linarith+
    then have "real (q + 1) < real (K + 1)" "real K < real (q + 1 + 1)"
      by simp_all
    then have "q + 1 < K + 1" "K < q + 1 + 1"
      by (simp_all only: of_nat_less_iff)
    then have "q + 1 = K"
      by simp
    with True show ?thesis
      by (simp add: round_half_away_def q_def r_def)
  next
    case False
    then have "2 * r < D"
      by simp
    then have "real (2 * r) < real D"
      by (simp only: of_nat_less_iff)
    then have "t < 1 / 2"
      using D by (simp add: t_def field_simps)
    with n1 n2 t0 have "real q - real K < 1" "- 1 < real q - real K"
      by linarith+
    then have "real q < real (K + 1)" "real K < real (q + 1)"
      by simp_all
    then have "q < K + 1" "K < q + 1"
      by (simp_all only: of_nat_less_iff)
    then have "q = K"
      by simp
    with False show ?thesis
      by (simp add: round_half_away_def q_def r_def)
  qed
qed

lemma Round_nearest:
  assumes e: "e < 0" and near: "\<bar>real m * 2 powi e - real K\<bar> < 1 / 2"
  shows "Round (Finite s m e) = round_f64 s K 1 0"
proof -
  have p: "2 powi e = 1 / (2::real) ^ nat (- e)"
    using e by (simp add: power_int_def field_simps)
  have v: "real m * 2 powi e = real m / real ((2::nat) ^ nat (- e))"
    unfolding p by simp
  from near have "round_half_away (m div 2 ^ nat (- e)) (m mod 2 ^ nat (- e)) (2 ^ nat (- e)) = K"
    unfolding v by (intro round_half_away_nearest) simp_all
  with e show ?thesis
    by simp
qed

lemma Pow10_table:
  "Pow10 0 = Finite False 4503599627370496 (- 52)"
  "Pow10 1 = Finite False 5629499534213120 (- 49)"
  "Pow10 2 = Finite False 7036874417766400 (- 46)"
  "Pow10 3 = Finite False 8796093022208000 (- 43)"
  "Pow10 4 = Finite False 5497558138880000 (- 39)"
  "Pow10 5 = Finite False 6871947673600000 (- 36)"
  "Pow10 6 = Finite False 8589934592000000 (- 33)"
  "Pow10 7 = Finite False 5368709120000000 (- 29)"
  "Pow10 8 = Finite False 6710886400000000 (- 26)"
  "Pow10 9 = Finite False 8388608000000000 (- 23)"
  "Pow10 10 = Finite False 5242880000000000 (- 19)"
  "Pow10 11 = Finite False 6553600000000000 (- 16)"
  "Pow10 12 = Finite False 8192000000000000 (- 13)"
  "Pow10 13 = Finite False 5120000000000000 (- 9)"
  "Pow10 14 = Finite False 6400000000000000 (- 6)"
  "Pow10 15 = Finite False 8000000000000000 (- 3)"
  "Pow10 16 = Finite False 5000000000000000 (1)"
  "Pow10 17 = Finite False 6250000000000000 (4)"
  "Pow10 18 = Finite False 7812500000000000 (7)"
  "Pow10 19 = Finite False 4882812500000000 (11)"
  "Pow10 20 = Finite False 6103515625000000 (14)"
  "Pow10 21 = Finite False 7629394531250000 (17)"
  "Pow10 22 = Finite False 4768371582031250 (21)"
  by (simp_all add: pow_eval f64_eval)

lemma Pow10_exact:
  assumes "0 \<le> d" "d \<le> 22"
  shows "\<exists>pm pe. Pow10 d = Finite False pm pe \<and> 0 < pm \<and> real pm * 2 powi pe = 10 ^ nat d"
proof -
  from assms have "d = 0 \<or> d = 1 \<or> d = 2 \<or> d = 3 \<or> d = 4 \<or> d = 5 \<or> d = 6 \<or> d = 7 \<or> d = 8
      \<or> d = 9 \<or> d = 10 \<or> d = 11 \<or> d = 12 \<or> d = 13 \<or> d = 14 \<or> d = 15 \<or> d = 16 \<or> d = 17
      \<or> d = 18 \<or> d = 19 \<or> d = 20 \<or> d = 21 \<or> d = 22"
    by presburger
  then show ?thesis
    by (elim disjE) (simp_all add: Pow10_table)
qed

lemma tiny_le:
  assumes "1 / 2 ^ 74 \<le> (v::real)"
  shows "2 powi (- 1022) \<le> v"
proof -
  have "(2::real) powi (- 1022) \<le> 2 powi (- 74)"
    by (rule power_int_increasing) simp_all
  also have "\<dots> = 1 / 2 ^ 74"
    by (simp add: power_int_minus_divide)
  finally show ?thesis
    using assms by (rule order_trans)
qed

lemma less_huge:
  assumes "(v::real) < 2 ^ 52"
  shows "v < 2 powi 1023"
proof -
  have "(2::real) powi 52 \<le> 2 powi 1023"
    by (rule power_int_increasing) simp_all
  moreover have "(2::real) powi 52 = 2 ^ 52"
    by simp
  ultimately show ?thesis
    using assms by linarith
qed

lemma Round_zero: "Round (Finite s 0 (- 1074)) = Finite s 0 (- 1074)"
  by (simp add: round_half_away_def round_f64_def)

subsection \<open>Price validation\<close>

lemma scaled_valof:
  assumes "x \<le> e"
  shows "real_of_int (scaled s m e x) * 2 powi x = valof (Finite s m e)"
proof -
  have "(2::real) powi e = 2 powi (e - x) * 2 powi x"
    unfolding pow2_split [symmetric] by simp
  moreover have "(2::real) powi (e - x) = 2 ^ nat (e - x)"
    using assms by (simp add: power_int_nonneg_exp)
  ultimately show ?thesis
    by (simp add: scaled_def)
qed

lemma flt_valof:
  "flt (Finite s m e) (Finite t n f) \<longleftrightarrow> valof (Finite s m e) < valof (Finite t n f)"
proof -
  define x where "x = min e f"
  have x: "x \<le> e" "x \<le> f"
    by (simp_all add: x_def)
  have pos: "0 < (2::real) powi x"
    by simp
  have "scaled s m e x < scaled t n f x \<longleftrightarrow>
      real_of_int (scaled s m e x) * 2 powi x < real_of_int (scaled t n f x) * 2 powi x"
    using pos by (simp only: mult_less_cancel_right_pos of_int_less_iff)
  then show ?thesis
    unfolding scaled_valof [OF x(1)] scaled_valof [OF x(2)] by (simp add: x_def)
qed

lemma fle_valof:
  "fle (Finite s m e) (Finite t n f) \<longleftrightarrow> valof (Finite s m e) \<le> valof (Finite t n f)"
proof -
  define x where "x = min e f"
  have x: "x \<le> e" "x \<le> f"
    by (simp_all add: x_def)
  have pos: "0 < (2::real) powi x"
    by simp
  have "scaled s m e x \<le> scaled t n f x \<longleftrightarrow>
      real_of_int (scaled s m e x) * 2 powi x \<le> real_of_int (scaled t n f x) * 2 powi x"
    using pos by (simp only: mult_le_cancel_right_pos of_int_le_iff)
  then show ?thesis
    unfolding scaled_valof [OF x(1)] scaled_valof [OF x(2)] by (simp add: x_def)
qed


lemma round_f64_exact:
  assumes n: "0 < n" "n < 2 ^ 53" and x: "- 1074 \<le> x" "x \<le> 0"
  shows "\<exists>m e. round_f64 s n 1 x = Finite s m e \<and> 0 < m \<and> m < 2 ^ 53 \<and> - 1074 \<le> e
           \<and> real m * 2 powi e = real n * 2 powi x"
proof -
  define E where "E = floor_log2 n 1"
  from floor_log2_bounds [of n 1] n have E1: "2 powi E \<le> real n" and E2: "real n < 2 powi (E + 1)"
    by (simp_all add: E_def)
  have "real n < real (2 ^ 53)"
    using n(2) by (simp only: of_nat_less_iff)
  then have "real n < 2 powi 53"
    by simp
  with E1 have "(2::real) powi E < 2 powi 53"
    by (rule order_le_less_trans)
  then have Ehi: "E < 53"
    by (rule pow2_less_D)
  define e where "e = max (E + x - 52) (- 1074)"
  have re: "round_exponent n 1 x = e"
    by (simp add: round_exponent_def E_def e_def)
  have ex: "e \<le> x" "- 1074 \<le> e" "E + x - 52 \<le> e"
    using Ehi x by (simp_all add: e_def)
  define m0 where "m0 = n * 2 ^ nat (x - e)"
  have sc: "rne_scaled n 1 (x - e) = m0"
    using ex by (simp add: rne_scaled_def rne_one m0_def)
  have p: "(2::real) powi (x - e) = 2 ^ nat (x - e)"
    using ex by (simp add: power_int_nonneg_exp)
  have rm: "real m0 = real n * 2 powi (x - e)"
    unfolding p m0_def by simp
  have val: "real m0 * 2 powi e = real n * 2 powi x"
  proof -
    have "(2::real) powi (x - e) * 2 powi e = 2 powi x"
      unfolding pow2_split [of "x - e" e, symmetric] by simp
    then show ?thesis
      unfolding rm by (simp add: mult.assoc)
  qed
  have "real m0 < 2 powi (E + 1) * 2 powi (x - e)"
    unfolding rm using E2 by (intro mult_strict_right_mono) simp_all
  also have "\<dots> = 2 powi (E + 1 + x - e)"
    unfolding pow2_split [of "E + 1" "x - e", symmetric] by (simp add: algebra_simps)
  also have "\<dots> \<le> 2 powi 53"
    using ex by (intro power_int_increasing) simp_all
  finally have "real m0 < real (2 ^ 53)"
    by simp
  then have m53: "m0 < 2 ^ 53"
    by (simp only: of_nat_less_iff)
  have mpos: "0 < m0"
    using n(1) by (simp add: m0_def)
  have "round_f64 s n 1 x = pack_f64 s m0 e"
    unfolding round_f64_def round_at_def re sc using n(1) by simp
  also have "\<dots> = Finite s m0 e"
    unfolding pack_f64_def using m53 ex x by simp
  finally show ?thesis
    using val mpos m53 ex by blast
qed

lemma Mod_value:
  assumes m: "m < 2 ^ 53" and e: "- 1074 \<le> e"
    and tm: "0 < tm" "tm < 2 ^ 53" and te: "- 1074 \<le> te" "te \<le> 0"
  shows "\<exists>mr er. Mod (Finite False m e) (Finite False tm te) = Finite False mr er
           \<and> mr < 2 ^ 53 \<and> - 1074 \<le> er
           \<and> real mr * 2 powi er =
               valof (Finite False m e)
               - valof (Finite False tm te)
                 * of_int \<lfloor>valof (Finite False m e) / valof (Finite False tm te)\<rfloor>"
proof -
  define x where "x = min e te"
  have x: "x \<le> e" "x \<le> te" "- 1074 \<le> x" "x \<le> 0"
    using e te by (simp_all add: x_def)
  define a b where "a = scaled False m e x" and "b = scaled False tm te x"
  have a0: "0 \<le> a" and b0: "0 < b"
    using tm by (simp_all add: a_def b_def scaled_def)
  have pa: "real_of_int a * 2 powi x = valof (Finite False m e)"
    unfolding a_def by (rule scaled_valof [OF x(1)])
  have pb: "real_of_int b * 2 powi x = valof (Finite False tm te)"
    unfolding b_def by (rule scaled_valof [OF x(2)])
  have quot: "valof (Finite False m e) / valof (Finite False tm te) = real_of_int a / real_of_int b"
    unfolding pa [symmetric] pb [symmetric] by simp
  have fl: "\<lfloor>real_of_int a / real_of_int b\<rfloor> = a div b"
    by (rule floor_divide_of_int_eq)
  define R where "R = nat (a mod b)"
  have Rint: "int R = a mod b"
    using b0 by (simp add: R_def)
  have "a mod b = a - b * (a div b)"
    by (simp add: minus_mult_div_eq_mod)
  then have am: "real_of_int (a mod b) = real_of_int a - real_of_int b * real_of_int (a div b)"
    by simp
  have "real R = real_of_int (int R)"
    by simp
  also have "\<dots> = real_of_int (a mod b)"
    unfolding Rint ..
  finally have "real R * 2 powi x =
      (real_of_int a - real_of_int b * real_of_int (a div b)) * 2 powi x"
    unfolding am by simp
  also have "\<dots> = real_of_int a * 2 powi x - real_of_int b * 2 powi x * real_of_int (a div b)"
    by (simp only: left_diff_distrib mult.assoc mult.commute [of "2 powi x"])
  finally have Rv: "real R * 2 powi x =
      valof (Finite False m e)
      - valof (Finite False tm te) * of_int \<lfloor>valof (Finite False m e) / valof (Finite False tm te)\<rfloor>"
    unfolding quot fl pa pb .
  have Rb: "R < 2 ^ 53"
  proof (cases "e \<le> te")
    case True
    then have "a = int m"
      by (simp add: a_def scaled_def x_def)
    moreover have "a mod b \<le> a"
      using a0 b0 by (simp add: zmod_le_nonneg_dividend)
    ultimately have "int R \<le> int m"
      using Rint by simp
    with m show ?thesis
      by simp
  next
    case False
    then have "b = int tm"
      by (simp add: b_def scaled_def x_def)
    moreover have "a mod b < b"
      using b0 by simp
    ultimately have "int R < int tm"
      using Rint by simp
    with tm show ?thesis
      by simp
  qed
  have Md: "Mod (Finite False m e) (Finite False tm te) = round_f64 False R 1 x"
    using tm by (simp add: R_def a_def b_def x_def)
  show ?thesis
  proof (cases "R = 0")
    case True
    then have "Mod (Finite False m e) (Finite False tm te) = Finite False 0 (- 1074)"
      unfolding Md by (simp add: round_f64_def)
    moreover from True Rv have "real (0::nat) * 2 powi (- 1074) =
      valof (Finite False m e)
      - valof (Finite False tm te) * of_int \<lfloor>valof (Finite False m e) / valof (Finite False tm te)\<rfloor>"
      by simp
    ultimately show ?thesis
      by (intro exI [of _ 0] exI [of _ "- 1074"]) simp
  next
    case False
    then have "0 < R"
      by simp
    from round_f64_exact [OF this Rb x(3,4), of False] obtain mr er where
      "round_f64 False R 1 x = Finite False mr er" "mr < 2 ^ 53" "- 1074 \<le> er"
      "real mr * 2 powi er = real R * 2 powi x"
      by blast
    then show ?thesis
      unfolding Md Rv by blast
  qed
qed


lemma pw_add: "pw (a + b) = pw a * pw b"
  by (simp add: pw_def power_int_add)

lemma pw_pos: "0 < pw k"
  by (simp add: pw_def)

lemma pw_mono: "a \<le> b \<Longrightarrow> pw a \<le> pw b"
  unfolding pw_def by (rule power_int_increasing) simp_all

lemma pw_nat: "pw (int k) = 2 ^ k"
  by (simp add: pw_def)

lemma pw_neg1: "pw (- 1) = 1 / 2"
  by (simp add: pw_def power_int_minus_divide)

lemma fsub_compare:
  assumes tm: "2 ^ 52 \<le> tm" "tm < 2 ^ 53" and te: "- 100 \<le> te" "te \<le> - 1"
    and mr: "mr < 2 ^ 53" and er: "- 1074 \<le> er"
    and r: "real mr * 2 powi er < real tm * 2 powi te"
    and ev: "ev \<le> real tm * 2 powi te / 4"
    and em: "ev = valof (Finite False em ee)"
  shows "flt (Finite False em ee) (fsub (Finite False tm te) (Finite False mr er))
         \<longleftrightarrow> ev < real tm * 2 powi te - real mr * 2 powi er"
proof -
  define tv rv where "tv = real tm * pw te" and "rv = real mr * pw er"
  have tv_alt: "real tm * 2 powi te = tv" and rv_alt: "real mr * 2 powi er = rv"
    by (simp_all add: tv_def rv_def pw_def)
  define x where "x = min te er"
  have x: "x \<le> te" "x \<le> er" "- 1074 \<le> x" "x \<le> 0"
    using te er by (simp_all add: x_def)
  define c where "c = scaled False tm te x + scaled True mr er x"
  have cv: "real_of_int c * pw x = tv - rv"
  proof -
    have "real_of_int c * 2 powi x =
        real_of_int (scaled False tm te x) * 2 powi x + real_of_int (scaled True mr er x) * 2 powi x"
      by (simp add: c_def distrib_right)
    then show ?thesis
      unfolding scaled_valof [OF x(1)] scaled_valof [OF x(2)]
      by (simp add: tv_def rv_def pw_def)
  qed
  have pos: "0 < tv - rv"
    using r unfolding tv_alt rv_alt by simp
  have cpos: "0 < c"
  proof (rule ccontr)
    assume "\<not> 0 < c"
    then have "real_of_int c \<le> 0"
      by simp
    then have "real_of_int c * pw x \<le> 0"
      using pw_pos [of x] by (simp add: mult_le_0_iff)
    with pos cv show False
      by simp
  qed
  define n where "n = nat c"
  have n: "0 < n" "real n = real_of_int c"
    using cpos by (simp_all add: n_def)
  have nv: "real n * pw x = tv - rv"
    unfolding n(2) by (rule cv)
  have nv': "real n / real 1 * 2 powi x = tv - rv"
    using nv by (simp add: pw_def)
  have fs: "fsub (Finite False tm te) (Finite False mr er) = round_f64 False n 1 x"
    using cpos by (simp add: fsub_def fadd_exact_def c_def x_def n_def)
  have rtm: "2 ^ 52 \<le> real tm" "real tm < 2 ^ 53"
  proof -
    have "real (2 ^ 52) \<le> real tm"
      using tm(1) by (simp only: of_nat_le_iff)
    then show "2 ^ 52 \<le> real tm"
      by simp
    have "real tm < real (2 ^ 53)"
      using tm(2) by (simp only: of_nat_less_iff)
    then show "real tm < 2 ^ 53"
      by simp
  qed
  have tv_lo: "pw (51 + te) \<le> tv / 2"
  proof -
    have "pw 52 * pw te \<le> real tm * pw te"
      using rtm(1) pw_pos [of te] pw_nat [of 52] by (intro mult_right_mono) simp_all
    moreover have "pw 52 * pw te = pw 1 * pw (51 + te)"
      unfolding pw_add [symmetric] by simp
    moreover have "pw 1 = 2"
      using pw_nat [of 1] by simp
    ultimately show ?thesis
      by (simp add: tv_def)
  qed
  have tv_hi: "tv < 2 ^ 52"
  proof -
    have "real tm * pw te < 2 ^ 53 * pw te"
      using rtm(2) pw_pos [of te] by (intro mult_strict_right_mono)
    also have "\<dots> \<le> 2 ^ 53 * pw (- 1)"
      using te pw_mono [of te "- 1"] by (intro mult_left_mono) simp_all
    also have "\<dots> = 2 ^ 52"
      unfolding pw_neg1 by simp
    finally show ?thesis
      by (simp add: tv_def)
  qed
  have rv0: "0 \<le> rv"
    using pw_pos [of er] by (simp add: rv_def)
  have tvpos: "0 < tv"
    using pos rv0 by simp
  show ?thesis
  proof (cases "rv \<le> tv / 2")
    case True
    have big: "tv / 2 \<le> tv - rv"
      using True by simp
    have "pw (- 1022) \<le> pw (51 + te)"
      using te by (intro pw_mono) simp
    with tv_lo big have "pw (- 1022) \<le> tv - rv"
      by linarith
    then have lo: "2 powi (- 1022) \<le> real n / real 1 * 2 powi x"
      unfolding nv' pw_def .
    have "tv - rv < 2 ^ 52"
      using tv_hi rv0 by linarith
    then have hi: "real n / real 1 * 2 powi x < 2 powi 1023"
      unfolding nv' by (rule less_huge)
    from round_f64_normal [OF n(1) zero_less_one lo hi, of False] obtain md ed where
      dd: "round_f64 False n 1 x = Finite False md ed"
      and derr: "\<bar>real md * 2 powi ed - (tv - rv)\<bar> \<le> (tv - rv) / 2 ^ 53"
      unfolding nv' by blast
    define D where "D = real md * 2 powi ed"
    define g where "g = tv - rv"
    define z where "z = g / 2 ^ 53"
    have derr': "\<bar>D - g\<bar> \<le> z"
      using derr by (simp only: D_def z_def g_def)
    have gpos: "0 < g" and gbig: "tv / 2 \<le> g"
      using pos big by (simp_all add: g_def)
    have "g / 2 ^ 53 \<le> g / 2 ^ 2"
      using gpos by (intro divide_left_mono power_increasing) simp_all
    then have "z \<le> g / 4"
      by (simp add: z_def)
    with derr' have "3 / 4 * g \<le> D"
      by linarith
    with gbig tvpos have "tv / 4 < D"
      by linarith
    with ev have "ev < D"
      unfolding tv_alt by linarith
    moreover have "ev < tv - rv"
      using ev big tvpos unfolding tv_alt by linarith
    ultimately show ?thesis
      unfolding fs dd flt_valof em [symmetric] tv_alt rv_alt
      by (simp add: D_def)
  next
    case False
    then have half: "tv / 2 < rv"
      by simp
    have rmr: "real mr \<le> 2 ^ 53"
    proof -
      have "real mr < real (2 ^ 53)"
        using mr by (simp only: of_nat_less_iff)
      then show ?thesis
        by simp
    qed
    have er_lo: "te - 1 \<le> er"
    proof (rule ccontr)
      assume "\<not> te - 1 \<le> er"
      then have "er \<le> te - 2"
        by simp
      then have "pw er \<le> pw (te - 2)"
        by (rule pw_mono)
      with rmr have "real mr * pw er \<le> 2 ^ 53 * pw (te - 2)"
        using pw_pos [of er] by (intro mult_mono) simp_all
      also have "(2::real) ^ 53 = pw 53"
        using pw_nat [of 53] by simp
      also have "pw 53 * pw (te - 2) = pw (51 + te)"
        unfolding pw_add [symmetric] by simp
      also have "\<dots> \<le> tv / 2"
        by (rule tv_lo)
      finally show False
        using half by (simp add: rv_def)
    qed
    then have xlo: "te - 1 \<le> x"
      by (simp add: x_def)
    have nlt: "n < 2 ^ 53"
    proof -
      have "real n * pw x < tv / 2"
        unfolding nv using half by simp
      also have "\<dots> = real tm * (pw te * pw (- 1))"
        unfolding pw_neg1 by (simp add: tv_def)
      also have "pw te * pw (- 1) = pw (te - 1)"
        unfolding pw_add [symmetric] by simp
      also have "real tm * pw (te - 1) \<le> real tm * pw x"
        using xlo pw_mono [of "te - 1" x] by (intro mult_left_mono) simp_all
      finally have "real n < real tm"
        using pw_pos [of x] by simp
      then have "n < tm"
        by (simp only: of_nat_less_iff)
      with tm(2) show ?thesis
        by simp
    qed
    from round_f64_exact [OF n(1) nlt x(3,4), of False] obtain md ed where
      dd: "round_f64 False n 1 x = Finite False md ed"
      and dv: "real md * 2 powi ed = real n * 2 powi x"
      by blast
    have dv': "real md * 2 powi ed = tv - rv"
      unfolding dv using nv by (simp add: pw_def)
    show ?thesis
      unfolding fs dd flt_valof em [symmetric] tv_alt rv_alt
      by (simp add: dv')
  qed
qed


lemma positive_price:
  assumes "flt (float64_of_nat 0) price" and "fle price (float64_of_nat 1)"
  shows "\<exists>m e. price = Finite False m e \<and> 0 < m"
proof (cases price)
  case (Finite s m e)
  from assms(1) have "valof (Finite False 0 (- 1074)) < valof (Finite s m e)"
    unfolding Finite float64_of_nat_0 flt_valof .
  then have "0 < (if s then - 1 else 1) * (real m * 2 powi e)"
    by (simp add: mult.assoc)
  then have pos: "0 < (if s then - 1 else 1) * (real m * 2 powi e)" .
  have nn: "0 \<le> real m * 2 powi e"
    by simp
  from pos nn have "\<not> s"
    by (cases s) auto
  moreover from pos have "m \<noteq> 0"
    by (cases "m = 0") auto
  ultimately show ?thesis
    using Finite by simp
next
  case (Infinity s)
  with assms show ?thesis
    by (simp add: float64_of_nat_0 float64_of_nat_1 del: One_nat_def)
next
  case NaN
  with assms show ?thesis
    by (simp add: float64_of_nat_0)
qed

lemma ValidatePrice_core:
  assumes wf: "is_float64 price"
    and lo: "flt (float64_of_nat 0) price" and hi: "fle price (float64_of_nat 1)"
    and t: "ParseFloat tickSize = Inr (Finite False tm te)"
    and tm: "2 ^ 52 \<le> tm" "tm < 2 ^ 53" and te: "- 100 \<le> te" "te \<le> - 1"
    and eps: "fdiv (Finite False tm te) (float64_of_nat 100) = Finite False em ee"
    and small: "valof (Finite False em ee) \<le> valof (Finite False tm te) / 4"
  shows "ValidatePrice price tickSize =
           (if tick_distance (valof price) (valof (Finite False tm te)) \<le> valof (Finite False em ee)
            then Inr () else Inl (NotTickMultiple tickSize))"
proof -
  from positive_price [OF lo hi] obtain m e where price: "price = Finite False m e" and m: "0 < m"
    by blast
  from wf have wm: "m < 2 ^ 53" and we: "- 1074 \<le> e"
    by (simp_all add: price)
  from lo hi have range: "\<not> fle price (float64_of_nat 0)" "\<not> flt (float64_of_nat 1) price"
    by (auto dest: flt_not_fle fle_not_flt)
  define p tv ev where "p = valof (Finite False m e)" and "tv = valof (Finite False tm te)"
    and "ev = valof (Finite False em ee)"
  have tmpos: "0 < tm"
    using tm(1) by (cases "tm = 0") simp_all
  have tvpos: "0 < tv"
    using tmpos by (simp add: tv_def)
  have te': "- 1074 \<le> te" "te \<le> 0"
    using te by simp_all
  from Mod_value [OF wm we tmpos tm(2) te'] obtain mr er where
    md: "Mod (Finite False m e) (Finite False tm te) = Finite False mr er"
    and mr: "mr < 2 ^ 53" and er: "- 1074 \<le> er"
    and rv: "real mr * 2 powi er = p - tv * of_int \<lfloor>p / tv\<rfloor>"
    unfolding p_def tv_def by blast
  define r where "r = p - tv * of_int \<lfloor>p / tv\<rfloor>"
  have fl1: "of_int \<lfloor>p / tv\<rfloor> \<le> p / tv" and fl2: "p / tv < of_int \<lfloor>p / tv\<rfloor> + 1"
    by linarith+
  have r0: "0 \<le> r"
  proof -
    from fl1 have "tv * of_int \<lfloor>p / tv\<rfloor> \<le> tv * (p / tv)"
      using tvpos by (intro mult_left_mono) simp_all
    then show ?thesis
      using tvpos by (simp add: r_def)
  qed
  have r1: "r < tv"
  proof -
    from fl2 have "tv * (p / tv) < tv * (of_int \<lfloor>p / tv\<rfloor> + 1)"
      using tvpos by (intro mult_strict_left_mono) simp_all
    then show ?thesis
      using tvpos by (simp add: r_def algebra_simps)
  qed
  have tv_alt: "real tm * 2 powi te = tv"
    by (simp add: tv_def)
  have rlt: "real mr * 2 powi er < real tm * 2 powi te"
    unfolding rv tv_alt using r1 by (simp add: r_def)
  have ev4: "ev \<le> real tm * 2 powi te / 4"
    using small by (simp add: ev_def tv_def)
  have c1: "flt (Finite False em ee) (Finite False mr er) \<longleftrightarrow> ev < r"
    unfolding flt_valof by (simp add: ev_def rv r_def)
  have c2: "flt (Finite False em ee) (fsub (Finite False tm te) (Finite False mr er)) \<longleftrightarrow> ev < tv - r"
    using fsub_compare [OF tm te mr er rlt ev4, of em ee] unfolding rv tv_alt
    by (simp add: ev_def r_def)
  have dist: "tick_distance p tv = min r (tv - r)"
    by (simp add: tick_distance_def r_def algebra_simps)
  have "ValidatePrice (Finite False m e) tickSize =
      (let remainder = Mod (Finite False m e) (Finite False tm te);
           epsilon = fdiv (Finite False tm te) (float64_of_nat 100)
       in if flt epsilon remainder \<and> flt epsilon (fsub (Finite False tm te) remainder)
          then Inl (NotTickMultiple tickSize) else Inr ())"
    using range [unfolded price]
    by (simp add: ValidatePrice_def t
        del: Mod.simps flt.simps fle.simps fdiv.simps One_nat_def)
  then have "ValidatePrice price tickSize =
      (if ev < r \<and> ev < tv - r then Inl (NotTickMultiple tickSize) else Inr ())"
    by (simp only: price Let_def md eps c1 c2)
  also have "\<dots> = (if tick_distance p tv \<le> ev then Inr () else Inl (NotTickMultiple tickSize))"
    unfolding dist by (auto simp: min_le_iff_disj not_less)
  finally show ?thesis
    by (simp add: p_def tv_def ev_def price)
qed

lemma tick_facts:
  "fdiv (Finite False 7205759403792794 (- 56)) (float64_of_nat 100) = Finite False 4611686018427388 (- 62)"
  "valof (Finite False 4611686018427388 (- 62)) \<le> valof (Finite False 7205759403792794 (- 56)) / 4"
  "fdiv (Finite False 5764607523034235 (- 59)) (float64_of_nat 100) = Finite False 7378697629483821 (- 66)"
  "valof (Finite False 7378697629483821 (- 66)) \<le> valof (Finite False 5764607523034235 (- 59)) / 4"
  "fdiv (Finite False 4611686018427388 (- 62)) (float64_of_nat 100) = Finite False 5902958103587057 (- 69)"
  "valof (Finite False 5902958103587057 (- 69)) \<le> valof (Finite False 4611686018427388 (- 62)) / 4"
  "fdiv (Finite False 7378697629483821 (- 66)) (float64_of_nat 100) = Finite False 4722366482869645 (- 72)"
  "valof (Finite False 4722366482869645 (- 72)) \<le> valof (Finite False 7378697629483821 (- 66)) / 4"
  by (simp_all add: f64_eval)


lemma ValidatePrice_tick:
  assumes wf: "is_float64 price"
    and lo: "flt (float64_of_nat 0) price" and hi: "fle price (float64_of_nat 1)"
    and t: "ParseFloat tickSize = Inr (Finite False tm te)"
    and tm: "2 ^ 52 \<le> tm" "tm < 2 ^ 53" and te: "- 100 \<le> te" "te \<le> - 1"
    and eps: "fdiv (Finite False tm te) (float64_of_nat 100) = Finite False em ee"
    and small: "valof (Finite False em ee) \<le> valof (Finite False tm te) / 4"
  shows "\<exists>t. ParseFloat tickSize = Inr t
           \<and> ValidatePrice price tickSize =
               (if tick_distance (valof price) (valof t) \<le> valof (fdiv t (float64_of_nat 100))
                then Inr () else Inl (NotTickMultiple tickSize))"
proof (intro exI conjI)
  show "ParseFloat tickSize = Inr (Finite False tm te)"
    by (rule t)
  show "ValidatePrice price tickSize =
      (if tick_distance (valof price) (valof (Finite False tm te))
            \<le> valof (fdiv (Finite False tm te) (float64_of_nat 100))
       then Inr () else Inl (NotTickMultiple tickSize))"
    unfolding eps by (rule ValidatePrice_core [OF assms])
qed

text \<open>
  C3. For each of the four tick sizes and every float64 price: a price \<open>\<le> 0\<close> or \<open>> 1\<close> is
  rejected; a price in \<open>(0, 1]\<close> is accepted exactly when its distance to the nearest
  multiple of the tick size is within the tolerance, and is otherwise rejected as not
  tick-aligned. Tick size and tolerance are the float64 values the code works with: the
  parsed tick size and its float64 quotient by 100.
\<close>

theorem ValidatePrice_decides:
  assumes tick: "tickSize = TickSize01 \<or> tickSize = TickSize001 \<or> tickSize = TickSize0001
      \<or> tickSize = TickSize00001"
    and wf: "is_float64 price"
  shows "(fle price (float64_of_nat 0) \<or> flt (float64_of_nat 1) price
           \<longrightarrow> ValidatePrice price tickSize = Inl PriceOutOfRange)
         \<and> (flt (float64_of_nat 0) price \<and> fle price (float64_of_nat 1)
           \<longrightarrow> (\<exists>t. ParseFloat tickSize = Inr t
                 \<and> ValidatePrice price tickSize =
                     (if tick_distance (valof price) (valof t)
                           \<le> valof (fdiv t (float64_of_nat 100))
                      then Inr () else Inl (NotTickMultiple tickSize))))"
proof (intro conjI impI)
  assume "fle price (float64_of_nat 0) \<or> flt (float64_of_nat 1) price"
  then show "ValidatePrice price tickSize = Inl PriceOutOfRange"
    by (simp add: ValidatePrice_def del: One_nat_def)
next
  assume "flt (float64_of_nat 0) price \<and> fle price (float64_of_nat 1)"
  then have lo: "flt (float64_of_nat 0) price" and hi: "fle price (float64_of_nat 1)"
    by simp_all
  from tick consider "tickSize = ''0.1''" | "tickSize = ''0.01''" | "tickSize = ''0.001''"
    | "tickSize = ''0.0001''"
    by (auto simp: TickSize01_def TickSize001_def TickSize0001_def TickSize00001_def)
  then show "\<exists>t. ParseFloat tickSize = Inr t
      \<and> ValidatePrice price tickSize =
          (if tick_distance (valof price) (valof t) \<le> valof (fdiv t (float64_of_nat 100))
           then Inr () else Inl (NotTickMultiple tickSize))"
  proof cases
    case 1
    have p: "ParseFloat tickSize = Inr (Finite False 7205759403792794 (- 56))"
      unfolding 1 by (rule ParseFloat_ticks)
    show ?thesis
      by (rule ValidatePrice_tick [OF wf lo hi p _ _ _ _ tick_facts(1) tick_facts(2)]) simp_all
  next
    case 2
    have p: "ParseFloat tickSize = Inr (Finite False 5764607523034235 (- 59))"
      unfolding 2 by (rule ParseFloat_ticks)
    show ?thesis
      by (rule ValidatePrice_tick [OF wf lo hi p _ _ _ _ tick_facts(3) tick_facts(4)]) simp_all
  next
    case 3
    have p: "ParseFloat tickSize = Inr (Finite False 4611686018427388 (- 62))"
      unfolding 3 by (rule ParseFloat_ticks)
    show ?thesis
      by (rule ValidatePrice_tick [OF wf lo hi p _ _ _ _ tick_facts(5) tick_facts(6)]) simp_all
  next
    case 4
    have p: "ParseFloat tickSize = Inr (Finite False 7378697629483821 (- 66))"
      unfolding 4 by (rule ParseFloat_ticks)
    show ?thesis
      by (rule ValidatePrice_tick [OF wf lo hi p _ _ _ _ tick_facts(7) tick_facts(8)]) simp_all
  qed
qed

theorem ValidatePrice_decides_witness:
  "ValidatePrice (float64_lit 3 2) ''0.1'' = Inl PriceOutOfRange
   \<and> ValidatePrice (float64_lit 52 100) ''0.01'' = Inr ()
   \<and> ValidatePrice (float64_lit 525 1000) ''0.01'' = Inl (NotTickMultiple ''0.01'')"
proof -
  have tick1: "''0.1'' = TickSize01 \<or> ''0.1'' = TickSize001 \<or> ''0.1'' = TickSize0001
      \<or> ''0.1'' = TickSize00001"
    by (simp add: TickSize01_def)
  have tick2: "''0.01'' = TickSize01 \<or> ''0.01'' = TickSize001 \<or> ''0.01'' = TickSize0001
      \<or> ''0.01'' = TickSize00001"
    by (simp add: TickSize001_def)
  have lits: "float64_lit 3 2 = Finite False 6755399441055744 (- 52)"
    "float64_lit 52 100 = Finite False 4683743612465316 (- 53)"
    "float64_lit 525 1000 = Finite False 4728779608739021 (- 53)"
    by (simp_all add: f64_eval)
  have wf: "is_float64 (float64_lit 3 2)" "is_float64 (float64_lit 52 100)"
    "is_float64 (float64_lit 525 1000)"
    unfolding lits by simp_all
  have out: "flt (float64_of_nat 1) (float64_lit 3 2)"
    by (simp add: f64_eval)
  have inside: "flt (float64_of_nat 0) (float64_lit 52 100)"
    "fle (float64_lit 52 100) (float64_of_nat 1)"
    "flt (float64_of_nat 0) (float64_lit 525 1000)"
    "fle (float64_lit 525 1000) (float64_of_nat 1)"
    by (simp_all add: f64_eval)
  have near: "tick_distance (valof (Finite False 4683743612465316 (- 53)))
        (valof (Finite False 5764607523034235 (- 59)))
      \<le> valof (Finite False 7378697629483821 (- 66))"
    by (simp add: tick_distance_def)
  have far: "\<not> tick_distance (valof (Finite False 4728779608739021 (- 53)))
        (valof (Finite False 5764607523034235 (- 59)))
      \<le> valof (Finite False 7378697629483821 (- 66))"
    by (simp add: tick_distance_def)
  from ValidatePrice_decides [OF tick1 wf(1), THEN conjunct1, rule_format, OF disjI2, OF out]
  have a: "ValidatePrice (float64_lit 3 2) ''0.1'' = Inl PriceOutOfRange" .
  from ValidatePrice_decides [OF tick2 wf(2), THEN conjunct2, rule_format, OF conjI,
      OF inside(1) inside(2)]
  obtain t where "ParseFloat ''0.01'' = Inr t"
    and v: "ValidatePrice (float64_lit 52 100) ''0.01'' =
      (if tick_distance (valof (float64_lit 52 100)) (valof t)
            \<le> valof (fdiv t (float64_of_nat 100))
       then Inr () else Inl (NotTickMultiple ''0.01''))"
    by blast
  then have "t = Finite False 5764607523034235 (- 59)"
    by (simp add: ParseFloat_ticks)
  with v near have b: "ValidatePrice (float64_lit 52 100) ''0.01'' = Inr ()"
    by (simp only: lits tick_facts if_True)
  from ValidatePrice_decides [OF tick2 wf(3), THEN conjunct2, rule_format, OF conjI,
      OF inside(3) inside(4)]
  obtain t' where "ParseFloat ''0.01'' = Inr t'"
    and v': "ValidatePrice (float64_lit 525 1000) ''0.01'' =
      (if tick_distance (valof (float64_lit 525 1000)) (valof t')
            \<le> valof (fdiv t' (float64_of_nat 100))
       then Inr () else Inl (NotTickMultiple ''0.01''))"
    by blast
  then have "t' = Finite False 5764607523034235 (- 59)"
    by (simp add: ParseFloat_ticks)
  with v' far have c: "ValidatePrice (float64_lit 525 1000) ''0.01'' = Inl (NotTickMultiple ''0.01'')"
    by (simp only: lits tick_facts if_False)
  from a b c show ?thesis
    by (intro conjI)
qed

subsection \<open>Rounding of amounts\<close>

text \<open>
  C6, as stated, fails: the amount 37250081746606.875 (a float64) is rounded to two
  decimals as 37250081746606.88, and rounding that result again gives
  37250081746606.89.
\<close>

theorem roundAmount_not_idempotent:
  "\<not> feq (roundAmount (roundAmount (float64_lit 37250081746606875 1000) 2) 2)
          (roundAmount (float64_lit 37250081746606875 1000) 2)"
proof -
  have "roundAmount (float64_lit 37250081746606875 1000) 2 = Finite False 4768010463565681 (- 7)"
    by (simp add: roundAmount_def Pow10_2 f64_eval)
  moreover have "roundAmount (Finite False 4768010463565681 (- 7)) 2 =
      Finite False 4768010463565682 (- 7)"
    by (simp add: roundAmount_def Pow10_2 f64_eval)
  ultimately show ?thesis
    by (simp add: f64_eval)
qed

text \<open>
  C6, amended. Each application multiplies by \<open>10\<^sup>d\<close> in float64, takes the nearest
  integer with halves away from zero, and divides by \<open>10\<^sup>d\<close> in float64. For
  \<open>0 \<le> d \<le> 22\<close> and every \<open>x\<close> whose scaled and rounded value is an integer \<open>\<plusminus>K\<close> with
  \<open>K < 2\<^sup>5\<^sup>1\<close>, the result is the float64 nearest to \<open>\<plusminus>K / 10\<^sup>d\<close> and a second
  application returns it unchanged.
\<close>

theorem roundAmount_idempotent_bounded:
  assumes d: "0 \<le> d" "d \<le> 22"
    and k: "Round (fmul x (Pow10 d)) = round_f64 s K 1 0"
    and Kb: "K < 2 ^ 51"
  shows "roundAmount (roundAmount x d) d = roundAmount x d
         \<and> roundAmount x d = fdiv (round_f64 s K 1 0) (Pow10 d)"
proof -
  from Pow10_exact [OF d] obtain pm pe where
    P: "Pow10 d = Finite False pm pe" and pm: "0 < pm"
    and Pv: "real pm * 2 powi pe = 10 ^ nat d"
    by blast
  define T where "T = (10::real) ^ nat d"
  have T1: "1 \<le> T"
    by (simp add: T_def)
  have "nat d \<le> 22"
    using d by simp
  then have "(10::real) ^ nat d \<le> 10 ^ 22"
    by (intro power_increasing) simp_all
  then have T2: "T \<le> 10 ^ 22"
    by (simp add: T_def)
  define y where "y = fdiv (round_f64 s K 1 0) (Finite False pm pe)"
  have k': "Round (fmul x (Finite False pm pe)) = round_f64 s K 1 0"
    using k unfolding P .
  have ra: "roundAmount x d = y"
    by (simp only: roundAmount_def Let_def P k' y_def)
  have main: "Round (fmul y (Finite False pm pe)) = round_f64 s K 1 0"
  proof (cases "K = 0")
    case True
    have y0: "y = Finite s 0 (- 1074)"
      using pm by (simp add: y_def True round_f64_def)
    show ?thesis
      unfolding y0 True by (simp add: round_f64_def round_half_away_def)
  next
    case False
    then have Kpos: "0 < K"
      by simp
    from Kb have K53: "K < 2 ^ 53"
      by simp
    from round_f64_nat_exact [OF Kpos K53, of s] obtain mk ek where
      kk: "round_f64 s K 1 0 = Finite s mk ek" and mk: "0 < mk"
      and kv: "real mk * 2 powi ek = real K"
      by blast
    have rK: "1 \<le> real K" "real K \<le> 2 ^ 51 - 1"
    proof -
      from Kpos show "1 \<le> real K" by simp
      from Kb have "K \<le> 2 ^ 51 - 1" by simp
      then have "real K \<le> real (2 ^ 51 - 1)" by (simp only: of_nat_le_iff)
      then show "real K \<le> 2 ^ 51 - 1" by simp
    qed
    have yr: "y = round_f64 s mk pm (ek - pe)"
      unfolding y_def kk using pm by simp
    have v1: "real mk / real pm * 2 powi (ek - pe) = real K / T"
    proof -
      have "real mk / real pm * 2 powi (ek - pe) = (real mk * 2 powi ek) / (real pm * 2 powi pe)"
        by (simp add: power_int_diff)
      then show ?thesis
        unfolding kv Pv T_def .
    qed
    have Tpos: "0 < T"
      using T1 by simp
    have q_lo: "1 / 2 ^ 74 \<le> real K / T"
    proof -
      have "1 / 2 ^ 74 \<le> 1 / (10::real) ^ 22"
        by simp
      also have "\<dots> \<le> 1 / T"
        using T2 Tpos by (intro divide_left_mono) simp_all
      also have "\<dots> \<le> real K / T"
        using rK(1) Tpos by (intro divide_right_mono) simp_all
      finally show ?thesis .
    qed
    have q_hi: "real K / T < 2 ^ 52"
    proof -
      have "real K / T \<le> real K / 1"
        using T1 rK by (intro divide_left_mono) simp_all
      with rK(2) show ?thesis
        by simp
    qed
    have lo1: "2 powi (- 1022) \<le> real mk / real pm * 2 powi (ek - pe)"
      unfolding v1 by (rule tiny_le [OF q_lo])
    have hi1: "real mk / real pm * 2 powi (ek - pe) < 2 powi 1023"
      unfolding v1 by (rule less_huge [OF q_hi])
    from round_f64_normal [OF mk pm lo1 hi1, of s] obtain my ey where
      yy: "round_f64 s mk pm (ek - pe) = Finite s my ey" and my: "2 ^ 52 \<le> my"
      and yerr: "\<bar>real my * 2 powi ey - real K / T\<bar> \<le> real K / T / 2 ^ 53"
      unfolding v1 by blast
    define Y where "Y = real my * 2 powi ey"
    have terr: "\<bar>Y * T - real K\<bar> \<le> real K / 2 ^ 53"
    proof -
      have "Y * T - real K = (Y - real K / T) * T"
        using Tpos by (simp add: field_simps)
      then have "\<bar>Y * T - real K\<bar> = \<bar>Y - real K / T\<bar> * \<bar>T\<bar>"
        by (simp only: abs_mult)
      also have "\<bar>T\<bar> = T"
        using Tpos by simp
      finally have "\<bar>Y * T - real K\<bar> = \<bar>Y - real K / T\<bar> * T" .
      also have "\<dots> \<le> real K / T / 2 ^ 53 * T"
        using yerr Tpos unfolding Y_def by (intro mult_right_mono) simp_all
      also have "\<dots> = real K / 2 ^ 53"
        using Tpos by simp
      finally show ?thesis .
    qed
    have K_le: "real K \<le> 2251799813685247"
      using rK(2) by simp
    define u where "u = real K / 9007199254740992"
    have u_le: "u \<le> 1 / 4 - 1 / 9007199254740992"
      using K_le by (simp add: u_def)
    have terr': "\<bar>Y * T - real K\<bar> \<le> u"
      using terr by (simp add: u_def)
    have v2_lo: "1 / 2 ^ 74 \<le> Y * T"
    proof -
      have "(1::real) / 2 ^ 74 \<le> 3 / 4"
        by simp
      also have "\<dots> \<le> Y * T"
        using terr' u_le rK(1) by linarith
      finally show ?thesis .
    qed
    have "Y * T < 4503599627370496"
      using terr' u_le K_le by linarith
    then have v2_hi: "Y * T < 2 ^ 52"
      by simp
    have mypos: "0 < my * pm"
      using my pm by simp
    have fm: "fmul y (Finite False pm pe) = round_f64 s (my * pm) 1 (ey + pe)"
      by (simp add: yr yy)
    have v2: "real (my * pm) / real 1 * 2 powi (ey + pe) = Y * T"
      unfolding Y_def T_def Pv [symmetric] pow2_split [of ey pe] by simp
    have lo2: "2 powi (- 1022) \<le> real (my * pm) / real 1 * 2 powi (ey + pe)"
      unfolding v2 by (rule tiny_le [OF v2_lo])
    have hi2: "real (my * pm) / real 1 * 2 powi (ey + pe) < 2 powi 1023"
      unfolding v2 by (rule less_huge [OF v2_hi])
    from round_f64_normal [OF mypos zero_less_one lo2 hi2, of s] obtain ma ea where
      aa: "round_f64 s (my * pm) 1 (ey + pe) = Finite s ma ea" and ma: "2 ^ 52 \<le> ma"
      and aerr: "\<bar>real ma * 2 powi ea - Y * T\<bar> \<le> Y * T / 2 ^ 53"
      unfolding v2 by blast
    define A where "A = real ma * 2 powi ea"
    define w where "w = Y * T / 9007199254740992"
    have aerr': "\<bar>A - Y * T\<bar> \<le> w"
      using aerr by (simp add: A_def w_def)
    have "Y * T \<le> real K + u"
      using terr' by linarith
    then have "w \<le> (real K + u) / 9007199254740992"
      unfolding w_def by (intro divide_right_mono) simp_all
    also have "\<dots> = u + u / 9007199254740992"
      by (simp add: u_def add_divide_distrib)
    finally have w_le: "w \<le> u + u / 9007199254740992" .
    have "u / 9007199254740992 \<le> (1 / 4) / 9007199254740992"
      using u_le by (intro divide_right_mono) simp_all
    then have u2: "u / 9007199254740992 < 1 / 9007199254740992"
      by simp
    have near: "\<bar>A - real K\<bar> < 1 / 2"
      using aerr' terr' w_le u2 u_le by linarith
    have ea: "ea < 0"
    proof (rule ccontr)
      assume "\<not> ea < 0"
      then have "(2::real) powi 0 \<le> 2 powi ea"
        by (intro power_int_increasing) simp_all
      then have "1 \<le> (2::real) powi ea"
        by simp
      moreover have "real (2 ^ 52) \<le> real ma"
        using ma by (simp only: of_nat_le_iff)
      then have "2 ^ 52 \<le> real ma"
        by simp
      ultimately have "2 ^ 52 * 1 \<le> real ma * 2 powi ea"
        by (intro mult_mono) simp_all
      then have "4503599627370496 \<le> A"
        by (simp add: A_def)
      with near K_le show False
        by linarith
    qed
    from near have "\<bar>real ma * 2 powi ea - real K\<bar> < 1 / 2"
      unfolding A_def .
    with ea have "Round (Finite s ma ea) = round_f64 s K 1 0"
      by (rule Round_nearest)
    then show ?thesis
      unfolding fm aa .
  qed
  have "roundAmount y d = fdiv (Round (fmul y (Finite False pm pe))) (Finite False pm pe)"
    by (simp only: roundAmount_def Let_def P)
  also have "\<dots> = fdiv (round_f64 s K 1 0) (Finite False pm pe)"
    by (simp only: main)
  also have "\<dots> = y"
    by (simp only: y_def)
  finally have "roundAmount (roundAmount x d) d = roundAmount x d"
    unfolding ra .
  moreover have "roundAmount x d = fdiv (round_f64 s K 1 0) (Pow10 d)"
    unfolding ra y_def P ..
  ultimately show ?thesis ..
qed


theorem roundAmount_idempotent_bounded_witness:
  "roundAmount (roundAmount (float64_lit 1005 1000) 2) 2 = roundAmount (float64_lit 1005 1000) 2
   \<and> roundAmount (float64_lit 1005 1000) 2 = float64_of_nat 1"
proof -
  have k: "Round (fmul (float64_lit 1005 1000) (Pow10 2)) = round_f64 False 100 1 0"
    by (simp add: Pow10_2 f64_eval)
  have e: "fdiv (round_f64 False 100 1 0) (Pow10 2) = float64_of_nat 1"
    by (simp add: Pow10_2 f64_eval)
  have "roundAmount (roundAmount (float64_lit 1005 1000) 2) 2 =
          roundAmount (float64_lit 1005 1000) 2
        \<and> roundAmount (float64_lit 1005 1000) 2 = fdiv (round_f64 False 100 1 0) (Pow10 2)"
    by (rule roundAmount_idempotent_bounded [OF _ _ k]) simp_all
  then show ?thesis
    unfolding e .
qed

subsection \<open>Salt generation\<close>

lemma bit_length_salt_bound: "bit_length 9223372036854775806 = 63"
  by (simp add: bit_length.simps)

lemma rand_Int_loop_bound:
  "rand_Int_loop k b mx r = Inr (n, rest) \<Longrightarrow> n < mx"
proof (induction k b mx r rule: rand_Int_loop.induct)
  case (1 k b mx r)
  from "1.prems" obtain bytes rest0 b0 bs where
    rd: "ReadFull k r = Inr (bytes, rest0)" "bytes = b0 # bs"
    by (subst (asm) rand_Int_loop.simps) (auto split: sum.splits prod.splits list.splits)
  define m where "m = SetBytes ((b0 AND (push_bit b 1 - 1)) # bs)"
  show ?case
  proof (cases "m < mx")
    case True
    with "1.prems" rd show ?thesis
      by (subst (asm) rand_Int_loop.simps) (simp add: m_def)
  next
    case False
    with "1.prems" rd have "rand_Int_loop k b mx rest0 = Inr (n, rest)"
      by (subst (asm) rand_Int_loop.simps) (simp add: m_def)
    with "1.IH" [OF rd(1) refl rd(2) m_def False]
    show ?thesis by simp
  qed
qed

lemma rand_Int_bound: "rand_Int r mx = Inr (n, rest) \<Longrightarrow> n < mx"
  by (auto simp: rand_Int_def Let_def split: if_splits dest: rand_Int_loop_bound)

text \<open>
  What the code guarantees: a salt that is returned lies between \<open>0\<close> and \<open>2\<^sup>6\<^sup>3 - 2\<close>,
  because \<open>rand.Int\<close> draws from \<open>[0, max)\<close>.
\<close>

lemma generateSalt_range:
  assumes "generateSalt r = Inr (s, rest)"
  shows "0 \<le> sint s \<and> sint s \<le> 9223372036854775806"
proof -
  from assms obtain n where
    n: "rand_Int r 9223372036854775807 = Inr (n, rest)" "s = word_of_nat n"
    by (auto simp: generateSalt_def split: sum.splits prod.splits)
  from n(1) have lt: "n < 9223372036854775807"
    by (rule rand_Int_bound)
  then have "sint (word_of_nat n :: 64 word) = int n"
    by (simp add: signed_of_nat signed_take_bit_int_eq_self)
  with n lt show ?thesis
    by simp
qed

lemma generateSalt_zero_bytes: "generateSalt [0, 0, 0, 0, 0, 0, 0, 0] = Inr (0, [])"
  apply (simp add: generateSalt_def rand_Int_def bit_length_salt_bound)
  apply (subst rand_Int_loop.simps)
  apply (simp add: ReadFull_def SetBytes_def)
  done

text \<open>
  C1. The claim places every returned salt in \<open>[1, 2\<^sup>6\<^sup>3 - 1]\<close>, with \<open>0\<close> excluded and
  \<open>2\<^sup>6\<^sup>3 - 1\<close> attainable. The code does the opposite at both ends: an entropy source
  that delivers eight zero bytes makes \<open>generateSalt\<close> return \<open>0\<close>, and no entropy
  source makes it return \<open>2\<^sup>6\<^sup>3 - 1\<close>.
\<close>

theorem generateSalt_zero_and_never_max:
  "generateSalt [0, 0, 0, 0, 0, 0, 0, 0] = Inr (0, [])
   \<and> (\<forall>r rest. generateSalt r \<noteq> Inr (9223372036854775807, rest))"
proof -
  have "generateSalt r \<noteq> Inr (9223372036854775807, rest)" for r rest
  proof
    assume "generateSalt r = Inr (9223372036854775807, rest)"
    then have "sint (9223372036854775807 :: 64 word) \<le> 9223372036854775806"
      using generateSalt_range by blast
    then show False
      by simp
  qed
  with generateSalt_zero_bytes show ?thesis
    by blast
qed

subsection \<open>Lookup tables\<close>

text \<open>
  C7. \<open>getExchangeAddress\<close> is total: chain 80002 resolves to the Amoy contract, and
  chain 137 as well as every chain id outside the table resolves to the mainnet
  contract; there is no failure branch.
\<close>

theorem getExchangeAddress_table:
  "getExchangeAddress chainID =
     (if chainID = 80002 then ''0xdFE02Eb6733538f8Ea35D585af8DE5958AD99E40''
      else ''0x4bFb41d5B3570DeFd03C39a9A4D8dE6Bd8B8982E'')"
  by (simp add: getExchangeAddress_def)

theorem getExchangeAddress_table_witness:
  "getExchangeAddress 80002 = ''0xdFE02Eb6733538f8Ea35D585af8DE5958AD99E40''
   \<and> getExchangeAddress 137 = ''0x4bFb41d5B3570DeFd03C39a9A4D8dE6Bd8B8982E''
   \<and> getExchangeAddress 1 = ''0x4bFb41d5B3570DeFd03C39a9A4D8dE6Bd8B8982E''"
  using getExchangeAddress_table [of 80002] getExchangeAddress_table [of 137]
    getExchangeAddress_table [of 1]
  by simp

text \<open>
  C9. \<open>getRoundConfig\<close> is total and has no error result: the four enumerated tick
  sizes give the uniform triples 1, 2, 3 and 4, and every other string gives the
  triple of tick size 0.01.
\<close>

theorem getRoundConfig_total:
  "getRoundConfig tickSize =
     (if tickSize = ''0.1'' then \<lparr>RoundConfig.Price = 1, Size = 1, Amount = 1\<rparr>
      else if tickSize = ''0.01'' then \<lparr>RoundConfig.Price = 2, Size = 2, Amount = 2\<rparr>
      else if tickSize = ''0.001'' then \<lparr>RoundConfig.Price = 3, Size = 3, Amount = 3\<rparr>
      else if tickSize = ''0.0001'' then \<lparr>RoundConfig.Price = 4, Size = 4, Amount = 4\<rparr>
      else \<lparr>RoundConfig.Price = 2, Size = 2, Amount = 2\<rparr>)"
  by (simp add: getRoundConfig_def TickSize01_def TickSize001_def TickSize0001_def
      TickSize00001_def)

theorem getRoundConfig_total_witness:
  "getRoundConfig ''0.1'' = \<lparr>RoundConfig.Price = 1, Size = 1, Amount = 1\<rparr>
   \<and> getRoundConfig ''0.0001'' = \<lparr>RoundConfig.Price = 4, Size = 4, Amount = 4\<rparr>
   \<and> getRoundConfig ''0.5'' = \<lparr>RoundConfig.Price = 2, Size = 2, Amount = 2\<rparr>"
  using getRoundConfig_total [of "''0.1''"] getRoundConfig_total [of "''0.0001''"]
    getRoundConfig_total [of "''0.5''"]
  by simp

subsection \<open>Order amounts\<close>

text \<open>
  C4. Price 0.52, size 10.0 and the precisions of tick size 0.01: a BUY gives the maker
  amount 5200000 and the taker amount 10000000, a SELL the same two amounts exchanged,
  both without error.
\<close>

theorem calculateOrderAmounts_example:
  "calculateOrderAmounts (float64_lit 52 100) (float64_lit 10 1) SideBuy
     \<lparr>RoundConfig.Price = 2, Size = 2, Amount = 2\<rparr> = Inr (''5200000'', ''10000000'')
   \<and> calculateOrderAmounts (float64_lit 52 100) (float64_lit 10 1) SideSell
     \<lparr>RoundConfig.Price = 2, Size = 2, Amount = 2\<rparr> = Inr (''10000000'', ''5200000'')
   \<and> getRoundConfig TickSize001 = \<lparr>RoundConfig.Price = 2, Size = 2, Amount = 2\<rparr>"
  by (simp add: calculateOrderAmounts_def roundAmount_def Pow10_2 f64_eval units_eval
      SideBuy_def SideSell_def getRoundConfig_def TickSize001_def TickSize01_def)

text \<open>
  C5. For a price in \<open>(0, 1]\<close> the BUY legs are the rounded notional \<open>price \<times> size\<close> (maker)
  and the rounded size (taker), the SELL legs are the same two values exchanged, each
  converted to base units; hence a BUY returns \<open>(m, t)\<close> exactly when the SELL returns
  \<open>(t, m)\<close>.
\<close>

theorem calculateOrderAmounts_side_swap:
  assumes "flt (float64_of_nat 0) price" and "fle price (float64_of_nat 1)"
  shows "calculateOrderAmounts price size' SideBuy cfg =
           Inr (toBaseUnits (roundAmount (fmul price size') (Amount cfg)),
                toBaseUnits (roundAmount size' (RoundConfig.Size cfg)))
         \<and> calculateOrderAmounts price size' SideSell cfg =
           Inr (toBaseUnits (roundAmount size' (RoundConfig.Size cfg)),
                toBaseUnits (roundAmount (fmul price size') (Amount cfg)))
         \<and> (\<forall>m t. calculateOrderAmounts price size' SideBuy cfg = Inr (m, t)
               \<longleftrightarrow> calculateOrderAmounts price size' SideSell cfg = Inr (t, m))"
proof -
  from assms have "\<not> fle price (float64_of_nat 0)" "\<not> flt (float64_of_nat 1) price"
    by (auto dest: flt_not_fle fle_not_flt)
  then show ?thesis
    by (auto simp: calculateOrderAmounts_def toBaseUnits_def SideBuy_def SideSell_def Let_def)
qed

theorem calculateOrderAmounts_side_swap_witness:
  "flt (float64_of_nat 0) (float64_lit 3 10) \<and> fle (float64_lit 3 10) (float64_of_nat 1)
   \<and> calculateOrderAmounts (float64_lit 3 10) (float64_lit 7 1) SideBuy
        \<lparr>RoundConfig.Price = 2, Size = 2, Amount = 2\<rparr> = Inr (''2100000'', ''7000000'')
   \<and> calculateOrderAmounts (float64_lit 3 10) (float64_lit 7 1) SideSell
        \<lparr>RoundConfig.Price = 2, Size = 2, Amount = 2\<rparr> = Inr (''7000000'', ''2100000'')"
proof -
  have p: "flt (float64_of_nat 0) (float64_lit 3 10)" "fle (float64_lit 3 10) (float64_of_nat 1)"
    by (simp_all add: f64_eval)
  have "toBaseUnits (roundAmount (fmul (float64_lit 3 10) (float64_lit 7 1)) 2) = ''2100000''"
    "toBaseUnits (roundAmount (float64_lit 7 1) 2) = ''7000000''"
    by (simp_all add: toBaseUnits_def roundAmount_def Pow10_2 f64_eval units_eval)
  with p calculateOrderAmounts_side_swap [OF p, of "float64_lit 7 1"
      "\<lparr>RoundConfig.Price = 2, Size = 2, Amount = 2\<rparr>"]
  show ?thesis
    by simp
qed

subsection \<open>Signatures\<close>

lemma sign_typed_hash_normalized:
  assumes prim: "\<forall>h k sg. Sign eth h k = Some sg \<longrightarrow> length sg = 65 \<and> (sg ! 64 = 0 \<or> sg ! 64 = 1)"
    and res: "sign_typed_hash eth key d m = Inr s"
  shows "\<exists>sg. Sign eth (Keccak256 eth ([0x19, 0x01] @ d @ m)) key = Some sg
           \<and> length sg = 65
           \<and> s = hexutil_Encode (take 64 sg @ [sg ! 64 + 27])
           \<and> (sg ! 64 + 27 = 27 \<or> sg ! 64 + 27 = 28)"
proof -
  from res obtain sg where sg: "Sign eth (Keccak256 eth ([0x19, 0x01] @ d @ m)) key = Some sg"
    by (auto simp: sign_typed_hash_def Let_def split: option.splits)
  with prim have len: "length sg = 65" and v: "sg ! 64 = 0 \<or> sg ! 64 = 1"
    by blast+
  from v have lt: "sg ! 64 < 27"
    by auto
  from len have upd: "sg[64 := x] = take 64 sg @ [x]" for x
    by (simp add: upd_conv_take_nth_drop)
  from res sg len lt have "s = hexutil_Encode (sg[64 := sg ! 64 + 27])"
    by (simp add: sign_typed_hash_def Let_def)
  with sg len v upd show ?thesis
    by auto
qed

lemma hash_and_sign_normalized:
  assumes prim: "\<forall>h k sg. Sign eth h k = Some sg \<longrightarrow> length sg = 65 \<and> (sg ! 64 = 0 \<or> sg ! 64 = 1)"
    and res: "hash_and_sign eth key td = Inr s"
  shows "\<exists>d m sg. HashStruct eth td ''EIP712Domain'' (Domain_Map (Domain td)) = Some d
           \<and> HashStruct eth td (PrimaryType td) (Message td) = Some m
           \<and> Sign eth (Keccak256 eth ([0x19, 0x01] @ d @ m)) key = Some sg
           \<and> length sg = 65
           \<and> s = hexutil_Encode (take 64 sg @ [sg ! 64 + 27])
           \<and> (sg ! 64 + 27 = 27 \<or> sg ! 64 + 27 = 28)"
proof -
  from res obtain d m where
    dm: "HashStruct eth td ''EIP712Domain'' (Domain_Map (Domain td)) = Some d"
      "HashStruct eth td (PrimaryType td) (Message td) = Some m"
      "sign_typed_hash eth key d m = Inr s"
    by (auto simp: hash_and_sign_def split: option.splits)
  from sign_typed_hash_normalized [OF prim dm(3)] dm(1,2) show ?thesis
    by blast
qed

lemma replicate_numeral: "replicate (numeral k) x = x # replicate (pred_numeral k) x"
  by (simp add: numeral_eq_Suc)

lemma list_update_numeral: "(x # xs)[numeral k := y] = x # xs[pred_numeral k := y]"
  by (simp add: numeral_eq_Suc)

lemma stub_sign_shape:
  "\<forall>h k sg. Sign stub_ethereum h k = Some sg \<longrightarrow> length sg = 65 \<and> (sg ! 64 = 0 \<or> sg ! 64 = 1)"
  by (auto simp: stub_ethereum_def nth_append split: if_splits)

lemma stub_key_decoded: "hexutil_Decode stub_key = Some (replicate 32 1)"
  by (simp add: hexutil_Decode_def stub_key_def from_hex_char_def replicate_numeral)

lemmas stub_eval = stub_ethereum_def stub_key_decoded hash_and_sign_def sign_typed_hash_def
  Order_typedData_def Order_message_def ClobAuth_typedData_def Domain_Map_def
  hexutil_Encode_def hex_digit_def GetAddressFromPrivateKey_def ClobAuthDomain_def
  ClobVersion_def Let_def replicate_numeral list_update_numeral

text \<open>
  C8. Given a signing primitive whose signatures have 65 bytes and end in the recovery
  id 0 or 1, every signature returned by \<open>BuildClobEip712Signature\<close> or
  \<open>BuildOrderSignature\<close> is the hex encoding of the primitive's signature, under the key
  parsed from the caller's private key, over
  \<open>keccak(0x19 0x01 || domainSeparator || messageHash)\<close>, the two hashes being the
  struct hashes of the domain and of the message of the call's own typed data, with 27
  added to the last byte, which is then 27 or 28.
\<close>

theorem signature_recovery_byte_normalized:
  assumes "\<forall>h k sg. Sign eth h k = Some sg \<longrightarrow> length sg = 65 \<and> (sg ! 64 = 0 \<or> sg ! 64 = 1)"
  shows "(BuildClobEip712Signature eth chainID privateKey timestamp nonce = Inr s \<longrightarrow>
           (\<exists>privateKeyBytes key d m sg.
              hexutil_Decode privateKey = Some privateKeyBytes
              \<and> ToECDSA eth privateKeyBytes = Some key
              \<and> (let typedData = (ClobAuth_typedData chainID)
                       \<lparr>Message :=
                          [''address'' \<mapsto> StringValue (PubkeyToAddress eth key),
                           ''timestamp'' \<mapsto> StringValue (Int_String (sint timestamp)),
                           ''nonce'' \<mapsto> StringValue nonce,
                           ''message'' \<mapsto> StringValue ''Signing in to ClobAuth'']\<rparr>
                  in HashStruct eth typedData ''EIP712Domain''
                       (Domain_Map \<lparr>Name = ''ClobAuthDomain'', Version = ''1'', ChainId = chainID,
                                    VerifyingContract = []\<rparr>) = Some d
                     \<and> HashStruct eth typedData ''ClobAuth'' (Message typedData) = Some m)
              \<and> Sign eth (Keccak256 eth ([0x19, 0x01] @ d @ m)) key = Some sg
              \<and> length sg = 65
              \<and> s = hexutil_Encode (take 64 sg @ [sg ! 64 + 27])
              \<and> (sg ! 64 + 27 = 27 \<or> sg ! 64 + 27 = 28)))
         \<and> (BuildOrderSignature eth chainID privateKey order signatureType = Inr s' \<longrightarrow>
           (\<exists>privateKeyBytes key d m sg.
              hexutil_Decode privateKey = Some privateKeyBytes
              \<and> ToECDSA eth privateKeyBytes = Some key
              \<and> (let typedData = (Order_typedData chainID)
                       \<lparr>Message := Order_message order signatureType\<rparr>
                  in HashStruct eth typedData ''EIP712Domain''
                       (Domain_Map \<lparr>Name = ''Polymarket CTF Exchange'', Version = ''1'',
                                    ChainId = chainID,
                                    VerifyingContract = getExchangeAddress chainID\<rparr>) = Some d
                     \<and> HashStruct eth typedData ''Order'' (Order_message order signatureType) = Some m)
              \<and> Sign eth (Keccak256 eth ([0x19, 0x01] @ d @ m)) key = Some sg
              \<and> length sg = 65
              \<and> s' = hexutil_Encode (take 64 sg @ [sg ! 64 + 27])
              \<and> (sg ! 64 + 27 = 27 \<or> sg ! 64 + 27 = 28)))"
proof (intro conjI impI)
  assume res: "BuildClobEip712Signature eth chainID privateKey timestamp nonce = Inr s"
  then obtain bs key where k: "hexutil_Decode privateKey = Some bs" "ToECDSA eth bs = Some key"
    and hs: "hash_and_sign eth key
               ((ClobAuth_typedData chainID)
                  \<lparr>Message :=
                     [''address'' \<mapsto> StringValue (PubkeyToAddress eth key),
                      ''timestamp'' \<mapsto> StringValue (Int_String (sint timestamp)),
                      ''nonce'' \<mapsto> StringValue nonce,
                      ''message'' \<mapsto> StringValue ''Signing in to ClobAuth'']\<rparr>) = Inr s"
    by (auto simp: BuildClobEip712Signature_def split: option.splits)
  from hash_and_sign_normalized [OF assms hs] obtain d m sg where
    "HashStruct eth ((ClobAuth_typedData chainID)
                  \<lparr>Message :=
                     [''address'' \<mapsto> StringValue (PubkeyToAddress eth key),
                      ''timestamp'' \<mapsto> StringValue (Int_String (sint timestamp)),
                      ''nonce'' \<mapsto> StringValue nonce,
                      ''message'' \<mapsto> StringValue ''Signing in to ClobAuth'']\<rparr>) ''EIP712Domain''
        (Domain_Map \<lparr>Name = ''ClobAuthDomain'', Version = ''1'', ChainId = chainID,
                                    VerifyingContract = []\<rparr>) = Some d"
    "HashStruct eth ((ClobAuth_typedData chainID)
                  \<lparr>Message :=
                     [''address'' \<mapsto> StringValue (PubkeyToAddress eth key),
                      ''timestamp'' \<mapsto> StringValue (Int_String (sint timestamp)),
                      ''nonce'' \<mapsto> StringValue nonce,
                      ''message'' \<mapsto> StringValue ''Signing in to ClobAuth'']\<rparr>) ''ClobAuth''
        [''address'' \<mapsto> StringValue (PubkeyToAddress eth key),
                      ''timestamp'' \<mapsto> StringValue (Int_String (sint timestamp)),
                      ''nonce'' \<mapsto> StringValue nonce,
                      ''message'' \<mapsto> StringValue ''Signing in to ClobAuth''] = Some m"
    "Sign eth (Keccak256 eth ([0x19, 0x01] @ d @ m)) key = Some sg"
    "length sg = 65" "s = hexutil_Encode (take 64 sg @ [sg ! 64 + 27])"
    "sg ! 64 + 27 = 27 \<or> sg ! 64 + 27 = 28"
    by (auto simp: ClobAuth_typedData_def ClobAuthDomain_def ClobVersion_def)
  with k show "\<exists>privateKeyBytes key d m sg.
              hexutil_Decode privateKey = Some privateKeyBytes
              \<and> ToECDSA eth privateKeyBytes = Some key
              \<and> (let typedData = (ClobAuth_typedData chainID)
                       \<lparr>Message :=
                          [''address'' \<mapsto> StringValue (PubkeyToAddress eth key),
                           ''timestamp'' \<mapsto> StringValue (Int_String (sint timestamp)),
                           ''nonce'' \<mapsto> StringValue nonce,
                           ''message'' \<mapsto> StringValue ''Signing in to ClobAuth'']\<rparr>
                  in HashStruct eth typedData ''EIP712Domain''
                       (Domain_Map \<lparr>Name = ''ClobAuthDomain'', Version = ''1'', ChainId = chainID,
                                    VerifyingContract = []\<rparr>) = Some d
                     \<and> HashStruct eth typedData ''ClobAuth'' (Message typedData) = Some m)
              \<and> Sign eth (Keccak256 eth ([0x19, 0x01] @ d @ m)) key = Some sg
              \<and> length sg = 65
              \<and> s = hexutil_Encode (take 64 sg @ [sg ! 64 + 27])
              \<and> (sg ! 64 + 27 = 27 \<or> sg ! 64 + 27 = 28)"
    unfolding Let_def by (intro exI [of _ bs] exI [of _ key] exI [of _ d] exI [of _ m] exI [of _ sg]) simp
next
  assume res: "BuildOrderSignature eth chainID privateKey order signatureType = Inr s'"
  then obtain bs key where k: "hexutil_Decode privateKey = Some bs" "ToECDSA eth bs = Some key"
    and hs: "hash_and_sign eth key
               ((Order_typedData chainID)\<lparr>Message := Order_message order signatureType\<rparr>) = Inr s'"
    by (auto simp: BuildOrderSignature_def split: option.splits)
  from hash_and_sign_normalized [OF assms hs] obtain d m sg where
    "HashStruct eth ((Order_typedData chainID)\<lparr>Message := Order_message order signatureType\<rparr>)
        ''EIP712Domain''
        (Domain_Map \<lparr>Name = ''Polymarket CTF Exchange'', Version = ''1'',
                                    ChainId = chainID,
                                    VerifyingContract = getExchangeAddress chainID\<rparr>) = Some d"
    "HashStruct eth ((Order_typedData chainID)\<lparr>Message := Order_message order signatureType\<rparr>)
        ''Order'' (Order_message order signatureType) = Some m"
    "Sign eth (Keccak256 eth ([0x19, 0x01] @ d @ m)) key = Some sg"
    "length sg = 65" "s' = hexutil_Encode (take 64 sg @ [sg ! 64 + 27])"
    "sg ! 64 + 27 = 27 \<or> sg ! 64 + 27 = 28"
    by (auto simp: Order_typedData_def)
  with k show "\<exists>privateKeyBytes key d m sg.
              hexutil_Decode privateKey = Some privateKeyBytes
              \<and> ToECDSA eth privateKeyBytes = Some key
              \<and> (let typedData = (Order_typedData chainID)
                       \<lparr>Message := Order_message order signatureType\<rparr>
                  in HashStruct eth typedData ''EIP712Domain''
                       (Domain_Map \<lparr>Name = ''Polymarket CTF Exchange'', Version = ''1'',
                                    ChainId = chainID,
                                    VerifyingContract = getExchangeAddress chainID\<rparr>) = Some d
                     \<and> HashStruct eth typedData ''Order'' (Order_message order signatureType) = Some m)
              \<and> Sign eth (Keccak256 eth ([0x19, 0x01] @ d @ m)) key = Some sg
              \<and> length sg = 65
              \<and> s' = hexutil_Encode (take 64 sg @ [sg ! 64 + 27])
              \<and> (sg ! 64 + 27 = 27 \<or> sg ! 64 + 27 = 28)"
    unfolding Let_def by (intro exI [of _ bs] exI [of _ key] exI [of _ d] exI [of _ m] exI [of _ sg]) simp
qed

theorem signature_recovery_byte_normalized_witness:
  "BuildClobEip712Signature stub_ethereum 137 stub_key 1700000000 ''0'' = Inr ''0x190102020202020202020202020202020202020202020202020202020202020201010101010101010101010101010101010101010101010101010101010101011c''
   \<and> BuildOrderSignature stub_ethereum 137 stub_key stub_order 0 = Inr ''0x190102020202020202020202020202020202020202020202020202020202020201010101010101010101010101010101010101010101010101010101010101011c''
   \<and> (\<exists>privateKeyBytes key d m sg.
         hexutil_Decode stub_key = Some privateKeyBytes
         \<and> ToECDSA stub_ethereum privateKeyBytes = Some key
         \<and> (let typedData = (ClobAuth_typedData 137)
                  \<lparr>Message :=
                     [''address'' \<mapsto> StringValue (PubkeyToAddress stub_ethereum key),
                      ''timestamp'' \<mapsto> StringValue (Int_String (sint (1700000000 :: int64))),
                      ''nonce'' \<mapsto> StringValue ''0'',
                      ''message'' \<mapsto> StringValue ''Signing in to ClobAuth'']\<rparr>
             in HashStruct stub_ethereum typedData ''EIP712Domain''
                  (Domain_Map \<lparr>Name = ''ClobAuthDomain'', Version = ''1'', ChainId = 137,
                               VerifyingContract = []\<rparr>) = Some d
                \<and> HashStruct stub_ethereum typedData ''ClobAuth'' (Message typedData) = Some m)
         \<and> Sign stub_ethereum (Keccak256 stub_ethereum ([0x19, 0x01] @ d @ m)) key = Some sg
         \<and> length sg = 65
         \<and> ''0x190102020202020202020202020202020202020202020202020202020202020201010101010101010101010101010101010101010101010101010101010101011c'' = hexutil_Encode (take 64 sg @ [sg ! 64 + 27])
         \<and> (sg ! 64 + 27 = 27 \<or> sg ! 64 + 27 = 28))
   \<and> (\<exists>privateKeyBytes key d m sg.
         hexutil_Decode stub_key = Some privateKeyBytes
         \<and> ToECDSA stub_ethereum privateKeyBytes = Some key
         \<and> (let typedData = (Order_typedData 137)\<lparr>Message := Order_message stub_order 0\<rparr>
             in HashStruct stub_ethereum typedData ''EIP712Domain''
                  (Domain_Map \<lparr>Name = ''Polymarket CTF Exchange'', Version = ''1'',
                               ChainId = 137, VerifyingContract = getExchangeAddress 137\<rparr>) = Some d
                \<and> HashStruct stub_ethereum typedData ''Order'' (Order_message stub_order 0) = Some m)
         \<and> Sign stub_ethereum (Keccak256 stub_ethereum ([0x19, 0x01] @ d @ m)) key = Some sg
         \<and> length sg = 65
         \<and> ''0x190102020202020202020202020202020202020202020202020202020202020201010101010101010101010101010101010101010101010101010101010101011c'' = hexutil_Encode (take 64 sg @ [sg ! 64 + 27])
         \<and> (sg ! 64 + 27 = 27 \<or> sg ! 64 + 27 = 28))"
proof -
  have run1: "BuildClobEip712Signature stub_ethereum 137 stub_key 1700000000 ''0'' = Inr ''0x190102020202020202020202020202020202020202020202020202020202020201010101010101010101010101010101010101010101010101010101010101011c''"
    by (simp add: BuildClobEip712Signature_def stub_eval)
  have run2: "BuildOrderSignature stub_ethereum 137 stub_key stub_order 0 = Inr ''0x190102020202020202020202020202020202020202020202020202020202020201010101010101010101010101010101010101010101010101010101010101011c''"
    by (simp add: BuildOrderSignature_def stub_order_def stub_eval)
  note e1 = signature_recovery_byte_normalized [OF stub_sign_shape, THEN conjunct1, rule_format,
      OF run1]
  note e2 = signature_recovery_byte_normalized [OF stub_sign_shape, THEN conjunct2, rule_format,
      OF run2]
  from run1 run2 e1 e2 show ?thesis
    by (intro conjI)
qed

subsection \<open>Building and creating orders\<close>







lemma ValidatePrice_other_spellings:
  "ValidatePrice (float64_lit 525 1000) ''inf'' = Inr ()"
  "ValidatePrice (float64_lit 525 1000) ''nan'' = Inr ()"
  "ValidatePrice (float64_lit 525 1000) ''0.0_1'' = Inl (NotTickMultiple ''0.0_1'')"
  "ValidatePrice (float64_lit 525 1000) ''0.01x'' = Inl InvalidTickSize"
  by (simp_all add: ValidatePrice_def ParseFloat_spellings fsub_def f64_eval Let_def)




subsection \<open>Request authentication\<close>

lemma sextets3:
  "sextets (bits8 a @ bits8 b @ bits8 c @ r) =
     [bit a 7, bit a 6, bit a 5, bit a 4, bit a 3, bit a 2] #
     [bit a 1, bit a 0, bit b 7, bit b 6, bit b 5, bit b 4] #
     [bit b 3, bit b 2, bit b 1, bit b 0, bit c 7, bit c 6] #
     [bit c 5, bit c 4, bit c 3, bit c 2, bit c 1, bit c 0] # sextets r"
  by (simp add: bits8_def)

lemma sextets2:
  "sextets (bits8 a @ bits8 b) =
     [[bit a 7, bit a 6, bit a 5, bit a 4, bit a 3, bit a 2],
      [bit a 1, bit a 0, bit b 7, bit b 6, bit b 5, bit b 4],
      [bit b 3, bit b 2, bit b 1, bit b 0, False, False]]"
  by (simp add: bits8_def)

lemma sextets1:
  "sextets (bits8 a) =
     [[bit a 7, bit a 6, bit a 5, bit a 4, bit a 3, bit a 2],
      [bit a 1, bit a 0, False, False, False, False]]"
  by (simp add: bits8_def)

lemma bits_val_foldl:
  "foldl (\<lambda>n b. 2 * n + of_bool b) k bs =
     k * 2 ^ length bs + foldl (\<lambda>n b. 2 * n + of_bool b) (0 :: nat) bs"
proof (induction bs arbitrary: k)
  case Nil
  show ?case by simp
next
  case (Cons c cs)
  let ?f = "\<lambda>(n :: nat) b. 2 * n + of_bool b"
  have "foldl ?f k (c # cs) = foldl ?f (2 * k + of_bool c) cs"
    by simp
  also have "\<dots> = (2 * k + of_bool c) * 2 ^ length cs + foldl ?f 0 cs"
    by (rule Cons.IH)
  also have "\<dots> = k * 2 ^ length (c # cs) + (of_bool c * 2 ^ length cs + foldl ?f 0 cs)"
    by (simp add: algebra_simps)
  also have "of_bool c * 2 ^ length cs + foldl ?f 0 cs = foldl ?f (of_bool c) cs"
    by (rule Cons.IH [symmetric])
  also have "foldl ?f (of_bool c) cs = foldl ?f 0 (c # cs)"
    by simp
  finally show ?case .
qed

lemma bits_val_Cons: "bits_val (b # bs) = of_bool b * 2 ^ length bs + bits_val bs"
  unfolding bits_val_def using bits_val_foldl [of "of_bool b" bs] by simp

lemma bits_val_Nil: "bits_val [] = 0"
  by (simp add: bits_val_def)

lemma bits_val_mod:
  "bits_val (map (\<lambda>i. odd (q div 2 ^ i)) (rev [0..<n])) = q mod 2 ^ n"
proof (induction n)
  case 0
  show ?case by (simp add: bits_val_Nil)
next
  case (Suc n)
  have "q mod (2 ^ n * 2) = 2 ^ n * (q div 2 ^ n mod 2) + q mod 2 ^ n"
    by (rule mod_mult2_eq)
  with Suc show ?case
    by (simp add: bits_val_Cons mod_2_eq_odd mult.commute)
qed

lemma bits_val_less: "bits_val bs < 2 ^ length bs"
proof (induction bs)
  case Nil
  show ?case by (simp add: bits_val_Nil)
next
  case (Cons b bs)
  have "of_bool b * 2 ^ length bs \<le> (2 :: nat) ^ length bs"
    by simp
  with Cons show ?case
    by (simp add: bits_val_Cons)
qed

lemma bit_word_odd: "bit (v :: 64 word) k \<longleftrightarrow> odd (unat v div 2 ^ k)"
proof -
  have "bit v k = bit (unat v) k"
    by (simp add: bit_unsigned_iff)
  also have "\<dots> = odd (unat v div 2 ^ k)"
    by (rule bit_iff_odd)
  finally show ?thesis .
qed

lemma sextet_bits:
  "unat ((v :: 64 word) AND 0x3F) = bits_val [bit v 5, bit v 4, bit v 3, bit v 2, bit v 1, bit v 0]"
proof -
  have m: "(0x3F :: 64 word) = mask 6"
    by (simp add: mask_eq_exp_minus_1)
  have "unat (v AND mask 6) = take_bit 6 (unat v)"
    by (simp only: unsigned_take_bit_eq flip: take_bit_eq_mask)
  also have "\<dots> = unat v mod 2 ^ 6"
    by (rule take_bit_eq_mod)
  also have "\<dots> = bits_val (map (\<lambda>i. odd (unat v div 2 ^ i)) (rev [0..<6]))"
    by (rule bits_val_mod [symmetric])
  also have "rev [0..<6] = [5, 4, 3, 2, 1, 0 :: nat]"
    by (simp add: upt_rec)
  finally show ?thesis
    unfolding m by (simp add: bit_word_odd)
qed

lemma byte_high: "8 \<le> n \<Longrightarrow> \<not> bit (b :: byte) n"
  by (auto dest: bit_imp_le_length)

lemma enc64_bits:
  "enc64 v = encodeURL ! bits_val [bit v 5, bit v 4, bit v 3, bit v 2, bit v 1, bit v 0]"
  by (simp only: enc64_def sextet_bits)

lemma EncodeToString_3:
  "EncodeToString (a # b # c # rest) =
     map (\<lambda>s. encodeURL ! bits_val s)
       [[bit a 7, bit a 6, bit a 5, bit a 4, bit a 3, bit a 2],
        [bit a 1, bit a 0, bit b 7, bit b 6, bit b 5, bit b 4],
        [bit b 3, bit b 2, bit b 1, bit b 0, bit c 7, bit c 6],
        [bit c 5, bit c 4, bit c 3, bit c 2, bit c 1, bit c 0]] @ EncodeToString rest"
  by (simp add: enc64_bits bit_simps byte_high)

lemma EncodeToString_2:
  "EncodeToString [a, b] =
     map (\<lambda>s. encodeURL ! bits_val s)
       [[bit a 7, bit a 6, bit a 5, bit a 4, bit a 3, bit a 2],
        [bit a 1, bit a 0, bit b 7, bit b 6, bit b 5, bit b 4],
        [bit b 3, bit b 2, bit b 1, bit b 0, False, False]] @ ''=''"
  by (simp add: enc64_bits bit_simps byte_high)

lemma EncodeToString_1:
  "EncodeToString [a] =
     map (\<lambda>s. encodeURL ! bits_val s)
       [[bit a 7, bit a 6, bit a 5, bit a 4, bit a 3, bit a 2],
        [bit a 1, bit a 0, False, False, False, False]] @ ''==''"
  by (simp add: enc64_bits bit_simps byte_high)

lemma sextets_length: "s \<in> set (sextets bs) \<Longrightarrow> length s = 6"
  by (induction bs rule: sextets.induct) auto

lemma pad_not_in_alphabet: "CHR ''='' \<notin> set encodeURL"
  by (simp add: encodeURL_def)

lemma base64url_unpadded_no_pad: "CHR ''='' \<notin> set (base64url_unpadded bs)"
proof
  assume "CHR ''='' \<in> set (base64url_unpadded bs)"
  then obtain s where s: "s \<in> set (sextets (concat (map bits8 bs)))"
    and c: "CHR ''='' = encodeURL ! bits_val s"
    by (auto simp: base64url_unpadded_def)
  from sextets_length [OF s] bits_val_less [of s] have "bits_val s < length encodeURL"
    by (simp add: encodeURL_def)
  then have "encodeURL ! bits_val s \<in> set encodeURL"
    by (rule nth_mem)
  with c pad_not_in_alphabet show False
    by simp
qed

lemma base64url_unpadded_3:
  "base64url_unpadded (a # b # c # rest) =
     map (\<lambda>s. encodeURL ! bits_val s)
       [[bit a 7, bit a 6, bit a 5, bit a 4, bit a 3, bit a 2],
        [bit a 1, bit a 0, bit b 7, bit b 6, bit b 5, bit b 4],
        [bit b 3, bit b 2, bit b 1, bit b 0, bit c 7, bit c 6],
        [bit c 5, bit c 4, bit c 3, bit c 2, bit c 1, bit c 0]] @ base64url_unpadded rest"
  unfolding base64url_unpadded_def using sextets3 [of a b c "concat (map bits8 rest)"] by simp

lemma base64url_unpadded_2:
  "base64url_unpadded [a, b] =
     map (\<lambda>s. encodeURL ! bits_val s)
       [[bit a 7, bit a 6, bit a 5, bit a 4, bit a 3, bit a 2],
        [bit a 1, bit a 0, bit b 7, bit b 6, bit b 5, bit b 4],
        [bit b 3, bit b 2, bit b 1, bit b 0, False, False]]"
  unfolding base64url_unpadded_def using sextets2 [of a b] by simp

lemma base64url_unpadded_1:
  "base64url_unpadded [a] =
     map (\<lambda>s. encodeURL ! bits_val s)
       [[bit a 7, bit a 6, bit a 5, bit a 4, bit a 3, bit a 2],
        [bit a 1, bit a 0, False, False, False, False]]"
  unfolding base64url_unpadded_def using sextets1 [of a] by simp

lemma EncodeToString_padding:
  "\<exists>k. EncodeToString bs = base64url_unpadded bs @ replicate k (CHR ''='')"
proof (induction bs rule: EncodeToString.induct)
  case (1 a b c rest)
  then obtain k where "EncodeToString rest = base64url_unpadded rest @ replicate k (CHR ''='')"
    by blast
  then have "EncodeToString (a # b # c # rest) =
      base64url_unpadded (a # b # c # rest) @ replicate k (CHR ''='')"
    by (simp only: EncodeToString_3 base64url_unpadded_3 append_assoc)
  then show ?case ..
next
  case (2 a b)
  have "EncodeToString [a, b] = base64url_unpadded [a, b] @ replicate 1 (CHR ''='')"
    by (simp only: EncodeToString_2 base64url_unpadded_2) simp
  then show ?case ..
next
  case (3 a)
  have "EncodeToString [a] = base64url_unpadded [a] @ replicate 2 (CHR ''='')"
    by (simp only: EncodeToString_1 base64url_unpadded_1) (simp add: numeral_2_eq_2)
  then show ?case ..
next
  case 4
  have "EncodeToString [] = base64url_unpadded [] @ replicate 0 (CHR ''='')"
    by (simp add: base64url_unpadded_def)
  then show ?case ..
qed

lemma TrimRight_padding:
  assumes "CHR ''='' \<notin> set xs"
  shows "TrimRight (xs @ replicate k (CHR ''='')) ''='' = xs"
proof -
  have "dropWhile (\<lambda>c. c \<in> set ''='') (replicate k (CHR ''='') @ rev xs) =
      dropWhile (\<lambda>c. c \<in> set ''='') (rev xs)"
    by (rule dropWhile_append2) simp
  also have "\<dots> = rev xs"
  proof (cases "rev xs")
    case Nil
    then show ?thesis by simp
  next
    case (Cons y ys)
    then have "y \<in> set xs"
      by (metis list.set_intros(1) set_rev)
    with assms have "y \<noteq> CHR ''=''"
      by auto
    with Cons show ?thesis
      by simp
  qed
  finally show ?thesis
    by (simp add: TrimRight_def)
qed

lemma TrimRight_EncodeToString: "TrimRight (EncodeToString bs) ''='' = base64url_unpadded bs"
proof -
  from EncodeToString_padding obtain k where
    "EncodeToString bs = base64url_unpadded bs @ replicate k (CHR ''='')" ..
  then show ?thesis
    by (simp only: TrimRight_padding [OF base64url_unpadded_no_pad])
qed

lemma rfc4648_vectors:
  "base64url_unpadded (bytes_of ''f'') = ''Zg''"
  "base64url_unpadded (bytes_of ''fo'') = ''Zm8''"
  "base64url_unpadded (bytes_of ''foo'') = ''Zm9v''"
  "base64url_unpadded (bytes_of ''foobar'') = ''Zm9vYmFy''"
  "EncodeToString (bytes_of ''fooba'') = ''Zm9vYmE=''"
  by (simp_all add: base64url_unpadded_def bytes_of_def bits8_def bits_val_def encodeURL_def
      enc64_def)

text \<open>
  C2. For every secret, timestamp, method, request path and body,
  \<open>BuildPolyHmacSignature\<close> returns a signature and never an error: the base64url
  encoding without padding of the HMAC-SHA256, keyed by the bytes of the secret, of the
  decimal timestamp, the method, the request path and the body joined in that order
  with nothing between them.
\<close>

theorem BuildPolyHmacSignature_unpadded_base64url:
  "BuildPolyHmacSignature hmac_sha256 secret timestamp method requestPath body =
     Inr (base64url_unpadded
            (hmac_sha256 (bytes_of secret)
               (bytes_of (Int_String (sint timestamp) @ method @ requestPath @ body))))"
  by (simp add: BuildPolyHmacSignature_def TrimRight_EncodeToString)

end
